theory Spec2Isabelle
  imports
    Main
    "HOL-Library.AList"
    "HOL-Library.Char_ord"
    "HOL-Library.List_Lexorder"
    "HOL-Library.Product_Lexorder"
begin

section \<open>RFItoLingq: scraping a podcast and uploading its episodes as lessons\<close>

text \<open>
  A shallow embedding of \<^verbatim>\<open>main.py\<close>, \<^verbatim>\<open>src/scraper.py\<close>, \<^verbatim>\<open>src/utils.py\<close> and
  \<^verbatim>\<open>src/lingq_api.py\<close>.

  \<^item> A Python \<^verbatim>\<open>str\<close> is a \<^typ>\<open>string\<close>; one \<^typ>\<open>char\<close> stands for one character of
    the Python string, so the model speaks about strings over the characters U+0000 to
    U+00FF (the \<open>c\<close> with cedilla of the lesson title is \<open>CHR 0xE7\<close>).
  \<^item> An exception is a value of type \<open>error\<close>; a function that can raise returns
    \<open>error + 'a\<close>, and one that also changes the world returns the world it leaves behind,
    whether it raised or not.
  \<^item> The world is the file system and the list of the HTTP requests issued so far. What the
    network answers is a parameter: a function of the requests made before and of the
    request itself.
  \<^item> Functions of libraries whose result is only passed on (\<^verbatim>\<open>urllib.parse.unquote\<close>, the
    HTML walks built on BeautifulSoup) are parameters as well; every theorem holds for
    all of them.
  \<^item> Console output is not modelled.
\<close>

subsection \<open>Strings\<close>

text \<open>The character class \<^verbatim>\<open>[a-zA-Z0-9]\<close>.\<close>

definition is_alnum :: "char \<Rightarrow> bool" where
  "is_alnum c =
     ((CHR ''a'' \<le> c \<and> c \<le> CHR ''z'') \<or> (CHR ''A'' \<le> c \<and> c \<le> CHR ''Z'') \<or>
      (CHR ''0'' \<le> c \<and> c \<le> CHR ''9''))"

text \<open>
  White space as \<^verbatim>\<open>str.strip()\<close> and the regular expression class \<^verbatim>\<open>\s\<close> see it: the
  characters for which \<^verbatim>\<open>str.isspace\<close> holds, here those below U+0100.
\<close>

definition is_space :: "char \<Rightarrow> bool" where
  "is_space c =
     ((CHR 0x09 \<le> c \<and> c \<le> CHR 0x0D) \<or> (CHR 0x1C \<le> c \<and> c \<le> CHR 0x20) \<or>
      c = CHR 0x85 \<or> c = CHR 0xA0)"

text \<open>\<^verbatim>\<open>s.rstrip(c)\<close>, \<^verbatim>\<open>s.strip(c)\<close> for a single character and \<^verbatim>\<open>s.strip()\<close>.\<close>

definition rstrip_char :: "char \<Rightarrow> string \<Rightarrow> string" where
  "rstrip_char c s = rev (dropWhile (\<lambda>x. x = c) (rev s))"

definition strip_char :: "char \<Rightarrow> string \<Rightarrow> string" where
  "strip_char c s = rstrip_char c (dropWhile (\<lambda>x. x = c) s)"

definition strip :: "string \<Rightarrow> string" where
  "strip s = rev (dropWhile is_space (rev (dropWhile is_space s)))"

text \<open>\<^verbatim>\<open>s.split(c)\<close>: the pieces between the occurrences of \<open>c\<close>; never the empty list.\<close>

fun split_on :: "char \<Rightarrow> string \<Rightarrow> string list" where
  "split_on c [] = [[]]"
| "split_on c (x # xs) =
     (if x = c then [] # split_on c xs
      else (case split_on c xs of [] \<Rightarrow> [[x]] | p # ps \<Rightarrow> (x # p) # ps))"

text \<open>\<^verbatim>\<open>sep.join(parts)\<close> for a one-character separator.\<close>

fun join_with :: "char \<Rightarrow> string list \<Rightarrow> string" where
  "join_with c [] = []"
| "join_with c [p] = p"
| "join_with c (p # q # ps) = p @ c # join_with c (q # ps)"

subsection \<open>The slug of an episode (\<^verbatim>\<open>RFIScraper.safe_slug_from_url\<close>)\<close>

text \<open>
  \<^verbatim>\<open>re.sub(r"[^a-zA-Z0-9]+", "-", tail)\<close>: scanning from the left, every maximal run of
  characters outside the class is replaced by one hyphen.
\<close>

function re_sub_non_alnum :: "string \<Rightarrow> string" where
  "re_sub_non_alnum [] = []"
| "re_sub_non_alnum (c # cs) =
     (if is_alnum c then c # re_sub_non_alnum cs
      else CHR ''-'' # re_sub_non_alnum (dropWhile (\<lambda>x. \<not> is_alnum x) cs))"
  by pat_completeness auto
termination
  by (relation "measure length") (auto simp: le_imp_less_Suc length_dropWhile_le)

text \<open>\<^verbatim>\<open>url.rstrip("/").split("/")[-1]\<close>; the split is never empty, so \<open>[-1]\<close> never raises.\<close>

definition last_segment :: "string \<Rightarrow> string" where
  "last_segment url = last (split_on CHR ''/'' (rstrip_char CHR ''/'' url))"

text \<open>
  \<^verbatim>\<open>
  def safe_slug_from_url(self, url):
      tail = url.rstrip("/").split("/")[-1]
      tail = unquote(tail)
      slug = re.sub(r"[^a-zA-Z0-9]+", "-", tail).strip("-")
      return slug or "episode"
  \<close>
  \<open>unquote\<close> is the library's percent-decoding, a parameter here.
\<close>

definition safe_slug_from_url :: "(string \<Rightarrow> string) \<Rightarrow> string \<Rightarrow> string" where
  "safe_slug_from_url unquote url =
     (let tail = last_segment url;
          tail = unquote tail;
          slug = strip_char CHR ''-'' (re_sub_non_alnum tail)
      in if slug = [] then ''episode'' else slug)"

text \<open>
  The library returns a string without a percent sign as it is, and replaces an escape
  \<^verbatim>\<open>%XY\<close> of two hexadecimal digits by the byte it denotes. This instance decodes the
  escapes of bytes below 0x80, which are the characters of the same code, and is used
  for the concrete evaluations below.
\<close>

definition hex_digit :: "char \<Rightarrow> nat option" where
  "hex_digit c =
     (if CHR ''0'' \<le> c \<and> c \<le> CHR ''9'' then Some (of_char c - 48)
      else if CHR ''a'' \<le> c \<and> c \<le> CHR ''f'' then Some (of_char c - 87)
      else if CHR ''A'' \<le> c \<and> c \<le> CHR ''F'' then Some (of_char c - 55)
      else None)"

fun unquote_ascii :: "string \<Rightarrow> string" where
  "unquote_ascii (c # h # l # cs) =
     (case (c = CHR ''%'', hex_digit h, hex_digit l) of
        (True, Some a, Some b) \<Rightarrow>
          (if a < 8 then char_of (16 * a + b) # unquote_ascii cs
           else c # unquote_ascii (h # l # cs))
      | _ \<Rightarrow> c # unquote_ascii (h # l # cs))"
| "unquote_ascii cs = cs"

text \<open>
  The slug as the specification words it: the last path segment with each run of
  non-alphanumeric characters collapsed to one hyphen, the result lowercased, and
  \<open>episode\<close> when that is empty.
\<close>

definition lower_ascii :: "char \<Rightarrow> char" where
  "lower_ascii c = (if CHR ''A'' \<le> c \<and> c \<le> CHR ''Z'' then char_of (of_char c + (32::nat)) else c)"

definition slug_as_specified :: "string \<Rightarrow> string" where
  "slug_as_specified url =
     (let slug = map lower_ascii (re_sub_non_alnum (last_segment url))
      in if slug = [] then ''episode'' else slug)"

text \<open>
  The maximal runs of characters of the class \<^verbatim>\<open>[a-zA-Z0-9]\<close> in a string, from left to
  right; the characters that stand before, between and behind them are dropped. This is
  not a function of the program: it says what the slug is made of.
\<close>

function alnum_runs :: "string \<Rightarrow> string list" where
  "alnum_runs [] = []"
| "alnum_runs (c # cs) =
     (if is_alnum c then takeWhile is_alnum (c # cs) # alnum_runs (dropWhile is_alnum cs)
      else alnum_runs (dropWhile (\<lambda>x. \<not> is_alnum x) cs))"
  by pat_completeness auto
termination
  by (relation "measure length") (auto simp: le_imp_less_Suc length_dropWhile_le)

subsection \<open>Exceptions\<close>

text \<open>
  The exceptions that the modelled code can meet. \<^verbatim>\<open>requests.RequestException\<close> covers the
  first four; the four after them are \<^verbatim>\<open>OSError\<close>s of the file system.
\<close>

datatype error =
    ConnectionError
  | HTTPError nat
  | ChunkedEncodingError
  | JSONDecodeError
  | FileNotFoundError
  | FileExistsError
  | NotADirectoryError
  | IsADirectoryError
  | AttributeError
  | TypeError
  | ValueError

fun is_RequestException :: "error \<Rightarrow> bool" where
  "is_RequestException ConnectionError = True"
| "is_RequestException (HTTPError _) = True"
| "is_RequestException ChunkedEncodingError = True"
| "is_RequestException JSONDecodeError = True"
| "is_RequestException _ = False"

subsection \<open>The file system (\<^verbatim>\<open>pathlib\<close>)\<close>

text \<open>
  A directory lists its entries in the order the operating system yields them. A path is
  the list of its components below the root. Permissions, links and failing devices are
  not modelled.
\<close>

datatype node = File string | Dir "(string \<times> node) list"

type_synonym path = "string list"

type_synonym filesystem = "(string \<times> node) list"

fun lookup :: "filesystem \<Rightarrow> path \<Rightarrow> node option" where
  "lookup es [] = Some (Dir es)"
| "lookup es (n # p) =
     (case map_of es n of
        None \<Rightarrow> None
      | Some (File c) \<Rightarrow> (if p = [] then Some (File c) else None)
      | Some (Dir sub) \<Rightarrow> lookup sub p)"

definition exists :: "filesystem \<Rightarrow> path \<Rightarrow> bool" where
  "exists es p = (lookup es p \<noteq> None)"

definition is_dir :: "filesystem \<Rightarrow> path \<Rightarrow> bool" where
  "is_dir es p = (case lookup es p of Some (Dir _) \<Rightarrow> True | _ \<Rightarrow> False)"

text \<open>\<^verbatim>\<open>p.name\<close>, \<^verbatim>\<open>p.parent\<close> and \<^verbatim>\<open>p / name\<close>.\<close>

definition name :: "path \<Rightarrow> string" where
  "name p = (if p = [] then [] else last p)"

definition parent :: "path \<Rightarrow> path" where
  "parent p = butlast p"

definition child :: "path \<Rightarrow> string \<Rightarrow> path" where
  "child p n = p @ [n]"

text \<open>\<^verbatim>\<open>p.iterdir()\<close>, consumed at once as \<^verbatim>\<open>sorted(...)\<close> and the \<^verbatim>\<open>for\<close> loops do.\<close>

definition iterdir :: "filesystem \<Rightarrow> path \<Rightarrow> error + path list" where
  "iterdir es p =
     (case lookup es p of
        None \<Rightarrow> Inl FileNotFoundError
      | Some (File _) \<Rightarrow> Inl NotADirectoryError
      | Some (Dir sub) \<Rightarrow> Inr (map (\<lambda>e. child p (fst e)) sub))"

text \<open>\<^verbatim>\<open>p.mkdir(parents=True, exist_ok=True)\<close>.\<close>

fun mkdir_parents :: "filesystem \<Rightarrow> path \<Rightarrow> error + filesystem" where
  "mkdir_parents es [] = Inr es"
| "mkdir_parents es (n # p) =
     (case map_of es n of
        None \<Rightarrow>
          (case mkdir_parents [] p of
             Inl e \<Rightarrow> Inl e
           | Inr sub \<Rightarrow> Inr (AList.update n (Dir sub) es))
      | Some (File c) \<Rightarrow> Inl (if p = [] then FileExistsError else NotADirectoryError)
      | Some (Dir sub) \<Rightarrow>
          (case mkdir_parents sub p of
             Inl e \<Rightarrow> Inl e
           | Inr sub' \<Rightarrow> Inr (AList.update n (Dir sub') es)))"

text \<open>
  \<^verbatim>\<open>open(p, "w")\<close> or \<^verbatim>\<open>open(p, "wb")\<close> followed by writing \<open>c\<close>: the file is created or
  replaced; the directory it lies in has to be there.
\<close>

fun write_file :: "filesystem \<Rightarrow> path \<Rightarrow> string \<Rightarrow> error + filesystem" where
  "write_file es [] c = Inl IsADirectoryError"
| "write_file es [n] c =
     (case map_of es n of
        Some (Dir _) \<Rightarrow> Inl IsADirectoryError
      | _ \<Rightarrow> Inr (AList.update n (File c) es))"
| "write_file es (n # m # p) c =
     (case map_of es n of
        None \<Rightarrow> Inl FileNotFoundError
      | Some (File _) \<Rightarrow> Inl NotADirectoryError
      | Some (Dir sub) \<Rightarrow>
          (case write_file sub (m # p) c of
             Inl e \<Rightarrow> Inl e
           | Inr sub' \<Rightarrow> Inr (AList.update n (Dir sub') es)))"

text \<open>
  \<^verbatim>\<open>p.write_text(s, encoding="utf-8")\<close> writes the text as it is (line feeds stay line
  feeds on the systems modelled). \<^verbatim>\<open>p.read_text(encoding="utf-8")\<close> reads with universal
  newlines: a carriage return, alone or before a line feed, comes back as a line feed.
\<close>

definition write_text :: "filesystem \<Rightarrow> path \<Rightarrow> string \<Rightarrow> error + filesystem" where
  "write_text es p s = write_file es p s"

fun universal_newlines :: "string \<Rightarrow> string" where
  "universal_newlines [] = []"
| "universal_newlines (c # cs) =
     (if c = CHR 0x0D then
        (case cs of
           [] \<Rightarrow> [CHR 0x0A]
         | d # ds \<Rightarrow> (if d = CHR 0x0A then CHR 0x0A # universal_newlines ds
                      else CHR 0x0A # universal_newlines cs))
      else c # universal_newlines cs)"

definition read_text :: "filesystem \<Rightarrow> path \<Rightarrow> error + string" where
  "read_text es p =
     (case lookup es p of
        None \<Rightarrow> Inl FileNotFoundError
      | Some (Dir _) \<Rightarrow> Inl IsADirectoryError
      | Some (File c) \<Rightarrow> Inr (universal_newlines c))"

text \<open>\<^verbatim>\<open>open(p, "rb")\<close>, as the lesson upload does for its attachments.\<close>

definition open_rb :: "filesystem \<Rightarrow> path \<Rightarrow> error + string" where
  "open_rb es p =
     (case lookup es p of
        None \<Rightarrow> Inl FileNotFoundError
      | Some (Dir _) \<Rightarrow> Inl IsADirectoryError
      | Some (File c) \<Rightarrow> Inr c)"

subsection \<open>JSON values, requests and responses\<close>

text \<open>What \<^verbatim>\<open>resp.json()\<close> can return. Numbers are integers here.\<close>

datatype json =
    JNull
  | JBool bool
  | JNum int
  | JStr string
  | JList "json list"
  | JDict "(string \<times> json) list"

text \<open>Python's truth value of such a value (\<^verbatim>\<open>if x:\<close>, \<^verbatim>\<open>x or y\<close>, \<^verbatim>\<open>not x\<close>).\<close>

fun truthy :: "json \<Rightarrow> bool" where
  "truthy JNull = False"
| "truthy (JBool b) = b"
| "truthy (JNum n) = (n \<noteq> 0)"
| "truthy (JStr s) = (s \<noteq> [])"
| "truthy (JList xs) = (xs \<noteq> [])"
| "truthy (JDict kvs) = (kvs \<noteq> [])"

text \<open>
  \<^verbatim>\<open>x.get(key)\<close>: the value of the key, \<^verbatim>\<open>None\<close> when a dictionary lacks it, and an
  \<^verbatim>\<open>AttributeError\<close> when \<open>x\<close> is not a dictionary. Of a key that the document repeats,
  the parser keeps the last value.
\<close>

fun json_get :: "json \<Rightarrow> string \<Rightarrow> error + json" where
  "json_get (JDict kvs) k = (case map_of (rev kvs) k of None \<Rightarrow> Inr JNull | Some v \<Rightarrow> Inr v)"
| "json_get _ k = Inl AttributeError"

text \<open>
  The requests of the program, by end point and payload: the page of a listing or of an
  episode; a media file, streamed; one page of the lessons of a course (language, course,
  page number; the page size is always 50); the creation of a lesson (language, form
  fields, attached files as part name and path); the patch of a lesson's shelves and
  tags (language, lesson id, shelves, tags); the request for audio time stamps.
\<close>

datatype request =
    GetPage string
  | GetFile string
  | GetLessons string int nat
  | PostLesson string "(string \<times> string) list" "(string \<times> path) list"
  | PatchLesson string json "string list" "string set"
  | PostGenaudio string json

text \<open>
  A response: its status, its body as text (\<^verbatim>\<open>resp.text\<close>, or the bytes that
  \<^verbatim>\<open>iter_content\<close> delivers), what \<^verbatim>\<open>resp.json()\<close> makes of the body (\<open>None\<close>: it raises),
  and whether a streamed body arrives whole (otherwise the stream breaks after the
  part in \<open>body\<close>).
\<close>

record response =
  status_code :: nat
  body :: string
  json_body :: "json option"
  complete :: bool

text \<open>\<^verbatim>\<open>resp.raise_for_status()\<close>.\<close>

definition raise_for_status :: "response \<Rightarrow> error + unit" where
  "raise_for_status r =
     (if 400 \<le> status_code r \<and> status_code r < 600 then Inl (HTTPError (status_code r))
      else Inr ())"

text \<open>\<^verbatim>\<open>resp.json()\<close>.\<close>

definition resp_json :: "response \<Rightarrow> error + json" where
  "resp_json r = (case json_body r of None \<Rightarrow> Inl JSONDecodeError | Some j \<Rightarrow> Inr j)"

subsection \<open>The world and what lies outside the program\<close>

record world =
  fs :: filesystem
  log :: "request list"

text \<open>A date as year, month and day; dates compare as \<^verbatim>\<open>datetime\<close> values of midnight do.\<close>

type_synonym datetime = "nat \<times> nat \<times> nat"

text \<open>
  The surroundings of a run. \<open>network\<close> answers a request, given the requests made before
  it; \<open>None\<close> means that no response arrives and the call raises. \<open>unquote\<close> is
  \<^verbatim>\<open>urllib.parse.unquote\<close>. \<open>find_episode_links\<close> (which raises when
  \<^verbatim>\<open>urljoin\<close> or the parser does), \<open>extract_transcript\<close> and
  \<open>extract_image_url\<close> are the scraper's walks over the parsed HTML of a page.
\<close>

record env =
  network :: "request list \<Rightarrow> request \<Rightarrow> response option"
  unquote :: "string \<Rightarrow> string"
  find_episode_links :: "string \<Rightarrow> error + (datetime \<times> string) list"
  extract_transcript :: "string \<Rightarrow> string option"
  extract_image_url :: "string \<Rightarrow> string option"

text \<open>The settings of \<^verbatim>\<open>src/config.py\<close> that the modelled code reads.\<close>

record config =
  LINGQ_API_TOKEN :: "string option"
  LINGQ_LANGUAGE_CODE :: string
  LINGQ_COURSE_ID :: int
  LINGQ_DEFAULT_TAGS :: "string list"
  LINGQ_DEFAULT_SHELVES :: "string list"
  RFI_BASE_URL :: string
  DATA_DIR :: path

text \<open>One request: it is recorded whether or not a response arrives.\<close>

definition http :: "env \<Rightarrow> request \<Rightarrow> world \<Rightarrow> (error + response) \<times> world" where
  "http e req w =
     ((case network e (log w) req of None \<Rightarrow> Inl ConnectionError | Some r \<Rightarrow> Inr r),
      w\<lparr>log := log w @ [req]\<rparr>)"

subsection \<open>Statements in sequence\<close>

text \<open>
  \<open>and_then r f\<close> is a statement whose outcome is \<open>r\<close>, followed by the statements \<open>f\<close>:
  an exception of the first leaves the function, with the world as it then is.
  \<open>fs_op\<close> is a statement that acts on the file system only.
  \<open>except_RequestException\<close> is \<^verbatim>\<open>try: ... except requests.RequestException: pass\<close>
  around a statement.
\<close>

definition and_then ::
  "(error + 'a) \<times> world \<Rightarrow> ('a \<Rightarrow> world \<Rightarrow> (error + 'b) \<times> world) \<Rightarrow> (error + 'b) \<times> world" where
  "and_then r f = (case r of (Inl err, w) \<Rightarrow> (Inl err, w) | (Inr x, w) \<Rightarrow> f x w)"

definition fs_op :: "(filesystem \<Rightarrow> error + filesystem) \<Rightarrow> world \<Rightarrow> (error + unit) \<times> world" where
  "fs_op f w = (case f (fs w) of Inl err \<Rightarrow> (Inl err, w) | Inr es \<Rightarrow> (Inr (), w\<lparr>fs := es\<rparr>))"

definition except_RequestException :: "(error + unit) \<times> world \<Rightarrow> (error + unit) \<times> world" where
  "except_RequestException r =
     (case r of
        (Inl err, w) \<Rightarrow> (if is_RequestException err then (Inr (), w) else (Inl err, w))
      | (Inr x, w) \<Rightarrow> (Inr x, w))"

subsection \<open>Numbers and dates as text\<close>

definition digit_char :: "nat \<Rightarrow> char" where
  "digit_char d = char_of (48 + d)"

fun decimal :: "nat \<Rightarrow> string" where
  "decimal n = (if n < 10 then [digit_char n] else decimal (n div 10) @ [digit_char (n mod 10)])"

declare decimal.simps [simp del]

text \<open>\<^verbatim>\<open>str(n)\<close> for an integer.\<close>

definition str_int :: "int \<Rightarrow> string" where
  "str_int i = (if i < 0 then CHR ''-'' # decimal (nat (- i)) else decimal (nat i))"

definition zero_pad :: "nat \<Rightarrow> string \<Rightarrow> string" where
  "zero_pad k s = replicate (k - length s) CHR ''0'' @ s"

text \<open>
  \<^verbatim>\<open>date.strftime('%Y-%m-%d')\<close>: month and day have two digits; the year is written
  without padding, as the C library of Linux does for \<^verbatim>\<open>%Y\<close> (year 999 gives
  \<^verbatim>\<open>999-01-02\<close>).
\<close>

definition strftime_ymd :: "datetime \<Rightarrow> string" where
  "strftime_ymd d =
     (case d of (y, m, dd) \<Rightarrow>
        decimal y @ ''-'' @ zero_pad 2 (decimal m) @ ''-'' @ zero_pad 2 (decimal dd))"

subsection \<open>The listing (\<^verbatim>\<open>RFIScraper.fetch_listing\<close>)\<close>

text \<open>
  \<^verbatim>\<open>sorted(xs, key=k, reverse=True)\<close>: the list is reversed, sorted stably and reversed
  again, so that equal keys keep their order.
\<close>

definition sorted_reverse :: "('a \<Rightarrow> 'k::linorder) \<Rightarrow> 'a list \<Rightarrow> 'a list" where
  "sorted_reverse k xs = rev (sort_key k (rev xs))"

text \<open>The slice \<^verbatim>\<open>xs[:n]\<close>; a negative \<open>n\<close> counts from the end.\<close>

definition slice_to :: "int \<Rightarrow> 'a list \<Rightarrow> 'a list" where
  "slice_to n xs = (if 0 \<le> n then take (nat n) xs else take (length xs - nat (- n)) xs)"

text \<open>
  The address of a listing page: the base address for page 0, and the base address with
  \<^verbatim>\<open>?page=N\<close> after it otherwise.
\<close>

definition listing_url :: "config \<Rightarrow> nat \<Rightarrow> string" where
  "listing_url cfg page =
     (if page = 0 then RFI_BASE_URL cfg else RFI_BASE_URL cfg @ ''?page='' @ decimal page)"

text \<open>
  The loop over the pages, \<open>collected\<close> being the dictionary from address to date in its
  insertion order:
  \<^verbatim>\<open>
  for page in range(max(1, pages)):
      url = ...
      try:
          resp = self.session.get(url, timeout=20)
          resp.raise_for_status()
          chunk = self.find_episode_links(resp.text)
          before = len(collected)
          for date, link in chunk:
              collected[link] = date
          if len(collected) == before:
              break
      except requests.RequestException as e:
          continue
  \<close>
\<close>

definition collect_chunk ::
  "(datetime \<times> string) list \<Rightarrow> (string \<times> datetime) list \<Rightarrow> (string \<times> datetime) list" where
  "collect_chunk chunk collected = foldl (\<lambda>acc item. AList.update (snd item) (fst item) acc) collected chunk"

fun listing_pages ::
  "env \<Rightarrow> config \<Rightarrow> nat list \<Rightarrow> (string \<times> datetime) list \<Rightarrow> world \<Rightarrow>
   (error + (string \<times> datetime) list) \<times> world" where
  "listing_pages e cfg [] collected w = (Inr collected, w)"
| "listing_pages e cfg (page # rest) collected w =
     (case http e (GetPage (listing_url cfg page)) w of
        (Inl err, w1) \<Rightarrow>
          (if is_RequestException err then listing_pages e cfg rest collected w1
           else (Inl err, w1))
      | (Inr resp, w1) \<Rightarrow>
          (case raise_for_status resp of
             Inl err \<Rightarrow>
               (if is_RequestException err then listing_pages e cfg rest collected w1
                else (Inl err, w1))
           | Inr _ \<Rightarrow>
               (case find_episode_links e (body resp) of
                  Inl err \<Rightarrow>
                    (if is_RequestException err then listing_pages e cfg rest collected w1
                     else (Inl err, w1))
                | Inr chunk \<Rightarrow>
                    (let n_before = length collected;
                         collected = collect_chunk chunk collected
                     in if length collected = n_before then (Inr collected, w1)
                        else listing_pages e cfg rest collected w1))))"

text \<open>
  \<^verbatim>\<open>
  episodes = sorted([(date, url) for url, date in collected.items()],
                    key=lambda t: t[0], reverse=True)
  if since:
      episodes = [item for item in episodes if item[0] >= since]
  if limit:
      episodes = episodes[:limit]
  return episodes
  \<close>
  A \<^verbatim>\<open>datetime\<close> is always true; a limit is false when it is \<^verbatim>\<open>None\<close> or 0.
\<close>

definition fetch_listing ::
  "env \<Rightarrow> config \<Rightarrow> int option \<Rightarrow> datetime option \<Rightarrow> int \<Rightarrow> world \<Rightarrow>
   (error + (datetime \<times> string) list) \<times> world" where
  "fetch_listing e cfg limit since pages w =
     (case listing_pages e cfg [0 ..< nat (max 1 pages)] [] w of
        (Inl err, w') \<Rightarrow> (Inl err, w')
      | (Inr collected, w') \<Rightarrow>
          (let episodes = sorted_reverse fst (map (\<lambda>kv. (snd kv, fst kv)) collected);
               episodes = (case since of
                             None \<Rightarrow> episodes
                           | Some d \<Rightarrow> filter (\<lambda>item. d \<le> fst item) episodes);
               episodes = (case limit of
                             None \<Rightarrow> episodes
                           | Some n \<Rightarrow> (if n = 0 then episodes else slice_to n episodes))
           in (Inr episodes, w')))"

text \<open>
  Whether a date passes the filter of \<^verbatim>\<open>since\<close>, for stating what the listing returns.
\<close>

definition on_or_after :: "datetime option \<Rightarrow> datetime \<Rightarrow> bool" where
  "on_or_after since d = (case since of None \<Rightarrow> True | Some s \<Rightarrow> s \<le> d)"

subsection \<open>The audio address of an episode (\<^verbatim>\<open>RFIScraper.MP3_REGEX\<close>)\<close>

text \<open>
  \<^verbatim>\<open>MP3_REGEX = re.compile(r"https?://[^\s\"]+\.mp3")\<close>. A match at the start of a text:
  the scheme, then as many characters that are neither white space nor a double quote
  as still leave \<^verbatim>\<open>.mp3\<close> behind them (the \<open>+\<close> is greedy and needs one character).
\<close>

definition mp3_url_char :: "char \<Rightarrow> bool" where
  "mp3_url_char c = (\<not> is_space c \<and> c \<noteq> CHR 0x22)"

definition match_scheme :: "string \<Rightarrow> (string \<times> string) option" where
  "match_scheme s =
     (if take 8 s = ''https://'' then Some (''https://'', drop 8 s)
      else if take 7 s = ''http://'' then Some (''http://'', drop 7 s)
      else None)"

definition mp3_match_here :: "string \<Rightarrow> string option" where
  "mp3_match_here s =
     (case match_scheme s of
        None \<Rightarrow> None
      | Some (scheme, rest) \<Rightarrow>
          (let run = takeWhile mp3_url_char rest
           in case filter (\<lambda>k. take 4 (drop k run) = ''.mp3'') (rev [1 ..< length run]) of
                [] \<Rightarrow> None
              | k # _ \<Rightarrow> Some (scheme @ take (k + 4) run)))"

text \<open>\<^verbatim>\<open>MP3_REGEX.search(html)\<close> with \<^verbatim>\<open>group(0)\<close>: the match that starts leftmost.\<close>

fun mp3_search :: "string \<Rightarrow> string option" where
  "mp3_search [] = None"
| "mp3_search (c # cs) =
     (case mp3_match_here (c # cs) of Some m \<Rightarrow> Some m | None \<Rightarrow> mp3_search cs)"

subsection \<open>The page of an episode (\<^verbatim>\<open>RFIScraper.extract_media\<close>)\<close>

text \<open>
  \<^verbatim>\<open>
  resp = self.session.get(episode_url, timeout=20)
  resp.raise_for_status()
  html = resp.text
  mp3_match = self.MP3_REGEX.search(html)
  mp3_url = mp3_match.group(0) if mp3_match else None
  transcript = self.extract_transcript(html)
  image_url = self.extract_image_url(html)
  return mp3_url, transcript, image_url
  \<close>
\<close>

definition extract_media ::
  "env \<Rightarrow> string \<Rightarrow> world \<Rightarrow>
   (error + (string option \<times> string option \<times> string option)) \<times> world" where
  "extract_media e episode_url w =
     (case http e (GetPage episode_url) w of
        (Inl err, w1) \<Rightarrow> (Inl err, w1)
      | (Inr resp, w1) \<Rightarrow>
          (case raise_for_status resp of
             Inl err \<Rightarrow> (Inl err, w1)
           | Inr _ \<Rightarrow>
               (let html = body resp
                in (Inr (mp3_search html, extract_transcript e html, extract_image_url e html),
                    w1))))"

subsection \<open>The downloader (\<^verbatim>\<open>RFIScraper.download_file\<close>)\<close>

text \<open>
  \<^verbatim>\<open>
  dest.parent.mkdir(parents=True, exist_ok=True)
  if dest.exists():
      return
  with self.session.get(url, stream=True, timeout=60) as resp:
      resp.raise_for_status()
      with open(dest, "wb") as f:
          for chunk in resp.iter_content(chunk_size=8192):
              if chunk:
                  f.write(chunk)
  \<close>
  When the stream breaks, what has arrived stays in the file and the exception leaves
  the function.
\<close>

definition download_file :: "env \<Rightarrow> string \<Rightarrow> path \<Rightarrow> world \<Rightarrow> (error + unit) \<times> world" where
  "download_file e url dest w =
     (case mkdir_parents (fs w) (parent dest) of
        Inl err \<Rightarrow> (Inl err, w)
      | Inr fs1 \<Rightarrow>
          (let w1 = w\<lparr>fs := fs1\<rparr>
           in if exists (fs w1) dest then (Inr (), w1)
              else
                (case http e (GetFile url) w1 of
                   (Inl err, w2) \<Rightarrow> (Inl err, w2)
                 | (Inr resp, w2) \<Rightarrow>
                     (case raise_for_status resp of
                        Inl err \<Rightarrow> (Inl err, w2)
                      | Inr _ \<Rightarrow>
                          (case write_file (fs w2) dest (body resp) of
                             Inl err \<Rightarrow> (Inl err, w2)
                           | Inr fs3 \<Rightarrow>
                               ((if complete resp then Inr () else Inl ChunkedEncodingError),
                                w2\<lparr>fs := fs3\<rparr>))))))"

subsection \<open>Storing an episode (\<^verbatim>\<open>RFIScraper.process_episode\<close>)\<close>

text \<open>The truth value of an optional string, and \<^verbatim>\<open>x or ''\<close>.\<close>

definition present :: "string option \<Rightarrow> bool" where
  "present x = (case x of None \<Rightarrow> False | Some s \<Rightarrow> s \<noteq> [])"

definition or_empty :: "string option \<Rightarrow> string" where
  "or_empty x = (case x of None \<Rightarrow> [] | Some s \<Rightarrow> s)"

text \<open>
  \<^verbatim>\<open>pathlib.Path(mp3_url).name\<close>: what follows the last slash. (The addresses given to it
  end in \<^verbatim>\<open>.mp3\<close>, so the last component is neither empty nor a dot.)
\<close>

definition url_file_name :: "string \<Rightarrow> string" where
  "url_file_name u = last (split_on CHR ''/'' u)"

text \<open>
  \<^verbatim>\<open>
  lines = [
      f"url: {episode_url}",
      f"mp3: {mp3_url or ''}",
      f"transcript: {'transcript.txt' if transcript else ''}",
      f"image: {image_url or ''}",
  ]
  \<close>
\<close>

definition episode_lines ::
  "string \<Rightarrow> string option \<Rightarrow> string option \<Rightarrow> string option \<Rightarrow> string list" where
  "episode_lines episode_url mp3_url transcript image_url =
     [''url: '' @ episode_url,
      ''mp3: '' @ or_empty mp3_url,
      ''transcript: '' @ (if present transcript then ''transcript.txt'' else ''''),
      ''image: '' @ or_empty image_url]"

text \<open>
  \<^verbatim>\<open>
  slug = self.safe_slug_from_url(episode_url)
  folder = config.DATA_DIR / f"{date.strftime('%Y-%m-%d')}-{slug}"
  folder.mkdir(parents=True, exist_ok=True)
  mp3_url, transcript, image_url = self.extract_media(episode_url)
  if not mp3_url: ...
  else:
      if download:
          mp3_dest = folder / pathlib.Path(mp3_url).name
          self.download_file(mp3_url, mp3_dest)
  if not transcript: ...
  else:
      (folder / "transcript.txt").write_text(transcript, encoding="utf-8")
  if image_url and download:
      image_dest = folder / "image.jpg"
      try:
          self.download_file(image_url, image_dest)
      except requests.RequestException as err: ...
  metadata = folder / "episode.txt"
  lines = [...]
  metadata.write_text("\n".join(lines), encoding="utf-8")
  return folder
  \<close>
\<close>

definition process_episode ::
  "env \<Rightarrow> config \<Rightarrow> datetime \<Rightarrow> string \<Rightarrow> bool \<Rightarrow> world \<Rightarrow> (error + path) \<times> world" where
  "process_episode e cfg date episode_url download w =
     (let slug = safe_slug_from_url (unquote e) episode_url;
          folder = child (DATA_DIR cfg) (strftime_ymd date @ ''-'' @ slug)
      in
      and_then (fs_op (\<lambda>es. mkdir_parents es folder) w) (\<lambda>_ w.
      and_then (extract_media e episode_url w) (\<lambda>media w.
        (case media of (mp3_url, transcript, image_url) \<Rightarrow>
      and_then
        (if present mp3_url \<and> download
         then download_file e (or_empty mp3_url)
                (child folder (url_file_name (or_empty mp3_url))) w
         else (Inr (), w)) (\<lambda>_ w.
      and_then
        (if present transcript
         then fs_op (\<lambda>es. write_text es (child folder ''transcript.txt'') (or_empty transcript)) w
         else (Inr (), w)) (\<lambda>_ w.
      and_then
        (if present image_url \<and> download
         then except_RequestException
                (download_file e (or_empty image_url) (child folder ''image.jpg'') w)
         else (Inr (), w)) (\<lambda>_ w.
      and_then
        (fs_op (\<lambda>es. write_text es (child folder ''episode.txt'')
                  (join_with CHR 0x0A
                     (episode_lines episode_url mp3_url transcript image_url))) w) (\<lambda>_ w.
      (Inr folder, w)))))))))"

subsection \<open>Reading an episode back (\<^verbatim>\<open>src/utils.py\<close>)\<close>

text \<open>
  \<^verbatim>\<open>
  meta = {}
  episode_file = episode_dir / "episode.txt"
  if not episode_file.exists():
      return meta
  for line in episode_file.read_text(encoding="utf-8").split("\n"):
      if ":" in line:
          key, value = line.split(":", 1)
          meta[key.strip()] = value.strip()
  return meta
  \<close>
\<close>

definition parse_line :: "(string \<rightharpoonup> string) \<Rightarrow> string \<Rightarrow> (string \<rightharpoonup> string)" where
  "parse_line meta line =
     (if CHR '':'' \<in> set line
      then (let key = takeWhile (\<lambda>c. c \<noteq> CHR '':'') line;
                val = tl (dropWhile (\<lambda>c. c \<noteq> CHR '':'') line)
            in meta(strip key \<mapsto> strip val))
      else meta)"

definition parse_episode_meta :: "filesystem \<Rightarrow> path \<Rightarrow> error + (string \<rightharpoonup> string)" where
  "parse_episode_meta es episode_dir =
     (let episode_file = child episode_dir ''episode.txt''
      in if \<not> exists es episode_file then Inr Map.empty
         else (case read_text es episode_file of
                 Inl err \<Rightarrow> Inl err
               | Inr t \<Rightarrow> Inr (foldl parse_line Map.empty (split_on CHR 0x0A t))))"

subsection \<open>The scrape command (\<^verbatim>\<open>cmd_scrape\<close>)\<close>

text \<open>
  \<^verbatim>\<open>
  episodes = scraper.fetch_listing(limit=args.limit, since=since_date, pages=args.pages)
  for date, url in episodes:
      scraper.process_episode(date, url)
  \<close>
  The date of \<^verbatim>\<open>--since\<close> is taken as parsed.
\<close>

fun scrape_episodes ::
  "env \<Rightarrow> config \<Rightarrow> (datetime \<times> string) list \<Rightarrow> world \<Rightarrow> (error + unit) \<times> world" where
  "scrape_episodes e cfg [] w = (Inr (), w)"
| "scrape_episodes e cfg (item # rest) w =
     (case process_episode e cfg (fst item) (snd item) True w of
        (Inl err, w1) \<Rightarrow> (Inl err, w1)
      | (Inr _, w1) \<Rightarrow> scrape_episodes e cfg rest w1)"

definition cmd_scrape ::
  "env \<Rightarrow> config \<Rightarrow> int option \<Rightarrow> datetime option \<Rightarrow> int \<Rightarrow> world \<Rightarrow> (error + unit) \<times> world" where
  "cmd_scrape e cfg limit since pages w =
     and_then (fetch_listing e cfg limit since pages w) (\<lambda>episodes w.
     scrape_episodes e cfg episodes w)"

subsection \<open>The lessons of a course (\<^verbatim>\<open>LingQAPI.get_collection_lessons\<close>)\<close>

text \<open>
  \<^verbatim>\<open>
  def _normalize_collection_list(self, payload):
      if isinstance(payload, list):
          return payload
      if isinstance(payload, dict) and "data" in payload:
          return payload.get("data", []) or []
      if isinstance(payload, dict) and "results" in payload:
          return payload.get("results", []) or []
      return []
  \<close>
\<close>

definition or_empty_list :: "json \<Rightarrow> json" where
  "or_empty_list v = (if truthy v then v else JList [])"

fun normalize_collection_list :: "json \<Rightarrow> json" where
  "normalize_collection_list (JList xs) = JList xs"
| "normalize_collection_list (JDict kvs) =
     (case map_of (rev kvs) ''data'' of
        Some v \<Rightarrow> or_empty_list v
      | None \<Rightarrow>
          (case map_of (rev kvs) ''results'' of
             Some v \<Rightarrow> or_empty_list v
           | None \<Rightarrow> JList []))"
| "normalize_collection_list _ = JList []"

text \<open>
  The dictionary from title to lesson id is kept as the list of its assignments
  \<^verbatim>\<open>mapping[title] = pk\<close> in the order they are made; a key has the value of its last
  assignment. A title that is a list or a dictionary cannot be a key (\<^verbatim>\<open>TypeError\<close>).
\<close>

type_synonym lesson_index = "(json \<times> json) list"

fun hashable :: "json \<Rightarrow> bool" where
  "hashable (JList _) = False"
| "hashable (JDict _) = False"
| "hashable _ = True"

text \<open>
  \<^verbatim>\<open>
  title = lesson.get("title")
  pk = lesson.get("id") or lesson.get("pk")
  if title and pk:
      mapping[title] = pk
  \<close>
\<close>

definition add_lesson :: "json \<Rightarrow> lesson_index \<Rightarrow> error + lesson_index" where
  "add_lesson lesson mapping =
     (case json_get lesson ''title'' of
        Inl err \<Rightarrow> Inl err
      | Inr title \<Rightarrow>
          (case json_get lesson ''id'' of
             Inl err \<Rightarrow> Inl err
           | Inr i \<Rightarrow>
               (case (if truthy i then Inr i else json_get lesson ''pk'') of
                  Inl err \<Rightarrow> Inl err
                | Inr pk \<Rightarrow>
                    (if truthy title \<and> truthy pk
                     then (if hashable title then Inr (mapping @ [(title, pk)]) else Inl TypeError)
                     else Inr mapping))))"

text \<open>
  \<^verbatim>\<open>for lesson in results:\<close> with the body above. An exception leaves the loop with
  the assignments made so far.
\<close>

fun add_lessons :: "json list \<Rightarrow> lesson_index \<Rightarrow> (error + unit) \<times> lesson_index" where
  "add_lessons [] mapping = (Inr (), mapping)"
| "add_lessons (lesson # rest) mapping =
     (case add_lesson lesson mapping of
        Inl err \<Rightarrow> (Inl err, mapping)
      | Inr mapping' \<Rightarrow> add_lessons rest mapping')"

text \<open>
  What the loop iterates over: the elements of a list, the characters of a string, the
  keys of a dictionary; a number or a truth value cannot be iterated (\<^verbatim>\<open>TypeError\<close>).
\<close>

fun iterate :: "json \<Rightarrow> error + json list" where
  "iterate (JList xs) = Inr xs"
| "iterate (JStr s) = Inr (map (\<lambda>c. JStr [c]) s)"
| "iterate (JDict kvs) = Inr (map JStr (rev (remdups (rev (map fst kvs)))))"
| "iterate _ = Inl TypeError"

text \<open>
  One turn of the loop of \<^verbatim>\<open>get_collection_lessons\<close>; \<open>True\<close> in the result means that
  the loop goes on to the next page.
  \<^verbatim>\<open>
  while True:
      try:
          resp = requests.get(url, headers=self.headers,
                              params={"page": page, "page_size": 50}, timeout=30)
          if resp.status_code == 404:
              break
          resp.raise_for_status()
          data = resp.json()
          results = self._normalize_collection_list(data)
          if not results:
              break
          for lesson in results: ...
          if not data.get("next"):
              break
          page += 1
      except Exception as e:
          break
  return mapping
  \<close>
\<close>

definition lessons_page ::
  "env \<Rightarrow> string \<Rightarrow> int \<Rightarrow> nat \<Rightarrow> lesson_index \<Rightarrow> world \<Rightarrow> bool \<times> lesson_index \<times> world" where
  "lessons_page e lang collection_pk page mapping w =
     (case http e (GetLessons lang collection_pk page) w of
        (Inl err, w1) \<Rightarrow> (False, mapping, w1)
      | (Inr resp, w1) \<Rightarrow>
          (if status_code resp = 404 then (False, mapping, w1)
           else
             (case raise_for_status resp of
                Inl err \<Rightarrow> (False, mapping, w1)
              | Inr _ \<Rightarrow>
             (case resp_json resp of
                Inl err \<Rightarrow> (False, mapping, w1)
              | Inr data \<Rightarrow>
             (let results = normalize_collection_list data
              in if \<not> truthy results then (False, mapping, w1)
                 else
             (case iterate results of
                Inl err \<Rightarrow> (False, mapping, w1)
              | Inr lessons \<Rightarrow>
             (case add_lessons lessons mapping of
                (Inl err, mapping') \<Rightarrow> (False, mapping', w1)
              | (Inr _, mapping') \<Rightarrow>
             (case json_get data ''next'' of
                Inl err \<Rightarrow> (False, mapping', w1)
              | Inr nxt \<Rightarrow> (truthy nxt, mapping', w1)))))))))"

partial_function (option) lessons_loop ::
  "env \<Rightarrow> string \<Rightarrow> int \<Rightarrow> nat \<Rightarrow> lesson_index \<Rightarrow> world \<Rightarrow> (lesson_index \<times> world) option" where
  "lessons_loop e lang collection_pk page mapping w =
     (case lessons_page e lang collection_pk page mapping w of
        (go_on, mapping', w') \<Rightarrow>
          (if go_on then lessons_loop e lang collection_pk (page + 1) mapping' w'
           else Some (mapping', w')))"

definition get_collection_lessons ::
  "env \<Rightarrow> string \<Rightarrow> int \<Rightarrow> world \<Rightarrow> (lesson_index \<times> world) option" where
  "get_collection_lessons e lang collection_pk w = lessons_loop e lang collection_pk 1 [] w"

text \<open>
  The answer that the request for page \<open>k\<close> gets when the pages before it have been
  requested in turn, and the answers that end the pagination in the words of the
  specification: none at all, a 404, a body whose list of results is empty, a body
  without a \<open>next\<close> that counts as true.
\<close>

definition page_answer :: "env \<Rightarrow> string \<Rightarrow> int \<Rightarrow> world \<Rightarrow> nat \<Rightarrow> response option" where
  "page_answer e lang collection_pk w k =
     network e (log w @ map (GetLessons lang collection_pk) [1 ..< k])
       (GetLessons lang collection_pk k)"

definition no_next :: "json \<Rightarrow> bool" where
  "no_next data = (case json_get data ''next'' of Inl err \<Rightarrow> True | Inr nxt \<Rightarrow> \<not> truthy nxt)"

definition ends_pagination :: "response option \<Rightarrow> bool" where
  "ends_pagination answer =
     (case answer of
        None \<Rightarrow> True
      | Some resp \<Rightarrow>
          status_code resp = 404 \<or>
          (case json_body resp of
             None \<Rightarrow> False
           | Some data \<Rightarrow> \<not> truthy (normalize_collection_list data) \<or> no_next data))"

subsection \<open>The files of an episode (\<^verbatim>\<open>src/utils.py\<close>)\<close>

text \<open>\<^verbatim>\<open>str.lower()\<close> on the characters below U+0100.\<close>

definition lower :: "char \<Rightarrow> char" where
  "lower c =
     (if (CHR ''A'' \<le> c \<and> c \<le> CHR ''Z'') \<or> (CHR 0xC0 \<le> c \<and> c \<le> CHR 0xDE \<and> c \<noteq> CHR 0xD7)
      then char_of (of_char c + (32::nat)) else c)"

text \<open>
  \<^verbatim>\<open>p.suffix\<close>: the name from its last dot on, unless it has no dot or the last dot is
  its first or its last character.
\<close>

definition suffix :: "string \<Rightarrow> string" where
  "suffix nm =
     (let after = rev (takeWhile (\<lambda>c. c \<noteq> CHR ''.'') (rev nm))
      in if CHR ''.'' \<in> set nm \<and> after \<noteq> [] \<and> length after + 1 < length nm
         then CHR ''.'' # after else [])"

text \<open>
  \<^verbatim>\<open>
  for file in episode_dir.iterdir():
      if file.suffix.lower() == ".mp3":
          return file
  return None
  \<close>
\<close>

definition find_mp3 :: "filesystem \<Rightarrow> path \<Rightarrow> error + path option" where
  "find_mp3 es episode_dir =
     (case iterdir es episode_dir of
        Inl err \<Rightarrow> Inl err
      | Inr files \<Rightarrow> Inr (find (\<lambda>file. map lower (suffix (name file)) = ''.mp3'') files))"

text \<open>
  \<^verbatim>\<open>
  episodes = []
  if not data_dir.exists():
      return []
  for dir_path in sorted(data_dir.iterdir()):
      if dir_path.is_dir():
          transcript = dir_path / "transcript.txt"
          episode_meta = dir_path / "episode.txt"
          if transcript.exists() and episode_meta.exists():
              episodes.append(dir_path)
  return episodes
  \<close>
  Paths compare by their components, one after the other, and a component compares as
  a string does.
\<close>

definition find_episodes :: "filesystem \<Rightarrow> path \<Rightarrow> error + path list" where
  "find_episodes es data_dir =
     (if \<not> exists es data_dir then Inr []
      else (case iterdir es data_dir of
              Inl err \<Rightarrow> Inl err
            | Inr paths \<Rightarrow>
                Inr (filter (\<lambda>dir_path. is_dir es dir_path \<and>
                                exists es (child dir_path ''transcript.txt'') \<and>
                                exists es (child dir_path ''episode.txt''))
                       (sort paths))))"

subsection \<open>Creating a lesson (\<^verbatim>\<open>src/lingq_api.py\<close>)\<close>

text \<open>
  \<^verbatim>\<open>create_lesson\<close>: the form fields in the order they are appended, the attachments
  opened (which can fail), the request, \<^verbatim>\<open>raise_for_status\<close> and \<^verbatim>\<open>resp.json()\<close>.
\<close>

definition attach :: "string \<Rightarrow> path option \<Rightarrow> world \<Rightarrow> (error + (string \<times> path) list) \<times> world" where
  "attach part file w =
     (case file of
        None \<Rightarrow> (Inr [], w)
      | Some p \<Rightarrow>
          (case open_rb (fs w) p of
             Inl err \<Rightarrow> (Inl err, w)
           | Inr _ \<Rightarrow> (Inr [(part, p)], w)))"

definition create_lesson ::
  "env \<Rightarrow> config \<Rightarrow> string \<Rightarrow> string \<Rightarrow> string \<Rightarrow> int option \<Rightarrow> string \<Rightarrow> int option \<Rightarrow>
   string list \<Rightarrow> string option \<Rightarrow> path option \<Rightarrow> string option \<Rightarrow> int option \<Rightarrow>
   path option \<Rightarrow> world \<Rightarrow> (error + json) \<times> world" where
  "create_lesson e cfg lang title lesson_text collection_pk status level tags original_url
     audio_file external_audio duration image_file w =
     (let data =
            [(''title'', title), (''text'', lesson_text), (''status'', status),
             (''accent'', ''france_french''), (''language'', lang)] @
            map (\<lambda>shelf. (''shelves[]'', shelf)) (LINGQ_DEFAULT_SHELVES cfg) @
            (case collection_pk of
               Some pk \<Rightarrow> (if pk \<noteq> 0 then [(''collection'', str_int pk)] else [])
             | None \<Rightarrow> []) @
            (case level of Some l \<Rightarrow> [(''level'', str_int l)] | None \<Rightarrow> []) @
            map (\<lambda>tag. (''tags[]'', tag)) tags @
            map (\<lambda>tag. (''tags[]'', tag))
              (filter (\<lambda>tag. tag \<notin> set tags) (LINGQ_DEFAULT_TAGS cfg)) @
            (if present original_url then [(''original_url'', or_empty original_url)] else []) @
            (case duration of
               Some d \<Rightarrow> (if d \<noteq> 0 then [(''duration'', str_int d)] else [])
             | None \<Rightarrow> [])
      in
      and_then (attach ''audio'' audio_file w) (\<lambda>audio w.
      (let data = data @
             (if audio_file = None \<and> present external_audio
              then [(''external_audio'', or_empty external_audio)] else [])
       in
      and_then (attach ''image'' image_file w) (\<lambda>image w.
      and_then (http e (PostLesson lang data (audio @ image)) w) (\<lambda>resp w.
      and_then (raise_for_status resp, w) (\<lambda>_ w.
      (resp_json resp, w)))))))"

text \<open>
  \<^verbatim>\<open>update_lesson_metadata\<close> catches every exception and returns whether the patch went
  through. \<^verbatim>\<open>generate_audio_timestamps\<close> catches the \<^verbatim>\<open>HTTPError\<close> of
  \<^verbatim>\<open>raise_for_status\<close> only, and takes a 409 as done.
\<close>

definition update_lesson_metadata ::
  "env \<Rightarrow> string \<Rightarrow> json \<Rightarrow> string list \<Rightarrow> string set \<Rightarrow> world \<Rightarrow> bool \<times> world" where
  "update_lesson_metadata e lang lesson_id shelves tags w =
     (case http e (PatchLesson lang lesson_id shelves tags) w of
        (Inl err, w1) \<Rightarrow> (False, w1)
      | (Inr resp, w1) \<Rightarrow>
          (case raise_for_status resp of Inl err \<Rightarrow> (False, w1) | Inr _ \<Rightarrow> (True, w1)))"

definition generate_audio_timestamps ::
  "env \<Rightarrow> string \<Rightarrow> json \<Rightarrow> world \<Rightarrow> (error + bool) \<times> world" where
  "generate_audio_timestamps e lang lesson_id w =
     (case http e (PostGenaudio lang lesson_id) w of
        (Inl err, w1) \<Rightarrow> (Inl err, w1)
      | (Inr resp, w1) \<Rightarrow>
          (case raise_for_status resp of
             Inl err \<Rightarrow> (Inr (status_code resp = 409), w1)
           | Inr _ \<Rightarrow> (Inr True, w1)))"

subsection \<open>Uploading an episode (\<^verbatim>\<open>upload_single_episode\<close>)\<close>

text \<open>\<^verbatim>\<open>f"Journal en fran\<close>\<open>c\<close>\<^verbatim>\<open>ais facile {date_part}"\<close>, the \<open>c\<close> with its cedilla.\<close>

definition lesson_title :: "string \<Rightarrow> string" where
  "lesson_title date_part = ''Journal en fran'' @ [CHR 0xE7] @ ''ais facile '' @ date_part"

text \<open>\<^verbatim>\<open>try: ... except Exception as e: return False\<close>.\<close>

definition except_Exception_False :: "(error + bool) \<times> world \<Rightarrow> (error + bool) \<times> world" where
  "except_Exception_False r =
     (case r of (Inl err, w) \<Rightarrow> (Inr False, w) | (Inr b, w) \<Rightarrow> (Inr b, w))"

text \<open>
  \<^verbatim>\<open>
  transcript_file = episode_dir / "transcript.txt"
  if not transcript_file.exists():
      return False
  meta = parse_episode_meta(episode_dir)
  original_url = meta.get("url", "")
  text = transcript_file.read_text(encoding="utf-8").strip()
  date_part = episode_dir.name[:10]
  title = f"Journal en ... facile {date_part}"
  if title in existing_lessons:
      return True
  mp3_file = find_mp3(episode_dir)
  image_file = episode_dir / "image.jpg"
  if not image_file.exists():
      image_file = None
  status = "shared" if (mp3_file and image_file) else "private"
  year = date_part[:4]
  try:
      lesson = api.create_lesson(lang=..., title=title, text=text, collection_pk=...,
                                 status=status, level=3, tags=[year],
                                 original_url=original_url, audio_file=mp3_file,
                                 external_audio=None, duration=None, image_file=image_file)
      lesson_id = lesson.get("id")
      if lesson_id:
          all_tags = list(set(config.LINGQ_DEFAULT_TAGS + [year]))
          api.update_lesson_metadata(..., lesson_id, shelves=..., tags=all_tags)
          if mp3_file:
              api.generate_audio_timestamps(..., lesson_id)
      return True
  except Exception as e:
      return False
  \<close>
\<close>

definition upload_single_episode ::
  "env \<Rightarrow> config \<Rightarrow> path \<Rightarrow> lesson_index \<Rightarrow> world \<Rightarrow> (error + bool) \<times> world" where
  "upload_single_episode e cfg episode_dir existing_lessons w =
     (let transcript_file = child episode_dir ''transcript.txt''
      in if \<not> exists (fs w) transcript_file then (Inr False, w)
         else
      and_then (parse_episode_meta (fs w) episode_dir, w) (\<lambda>meta w.
      (let original_url = (case meta ''url'' of None \<Rightarrow> [] | Some u \<Rightarrow> u)
       in
      and_then (read_text (fs w) transcript_file, w) (\<lambda>raw w.
      (let lesson_text = strip raw;
           date_part = take 10 (name episode_dir);
           title = lesson_title date_part
       in if JStr title \<in> set (map fst existing_lessons) then (Inr True, w)
          else
      and_then (find_mp3 (fs w) episode_dir, w) (\<lambda>mp3_file w.
      (let image_file = (if exists (fs w) (child episode_dir ''image.jpg'')
                         then Some (child episode_dir ''image.jpg'') else None);
           status = (if mp3_file \<noteq> None \<and> image_file \<noteq> None then ''shared'' else ''private'');
           year = take 4 date_part
       in
      except_Exception_False
        (and_then
           (create_lesson e cfg (LINGQ_LANGUAGE_CODE cfg) title lesson_text
              (Some (LINGQ_COURSE_ID cfg)) status (Some 3) [year] (Some original_url)
              mp3_file None None image_file w) (\<lambda>lesson w.
         and_then (json_get lesson ''id'', w) (\<lambda>lesson_id w.
           (if truthy lesson_id
            then (case update_lesson_metadata e (LINGQ_LANGUAGE_CODE cfg) lesson_id
                         (LINGQ_DEFAULT_SHELVES cfg) (set (LINGQ_DEFAULT_TAGS cfg @ [year])) w of
                    (_, w) \<Rightarrow>
                      (if mp3_file \<noteq> None
                       then and_then
                              (generate_audio_timestamps e (LINGQ_LANGUAGE_CODE cfg) lesson_id w)
                              (\<lambda>_ w. (Inr True, w))
                       else (Inr True, w)))
            else (Inr True, w))))))))))))"

subsection \<open>The upload command (\<^verbatim>\<open>cmd_upload\<close>)\<close>

text \<open>
  The episodes to upload:
  \<^verbatim>\<open>
  if args.date:
      targets = [e for e in all_episodes if e.name.startswith(args.date)]
      if not targets:
          return
  else:
      targets = all_episodes
  if args.limit:
      targets = targets[:args.limit]
  \<close>
\<close>

definition select_targets :: "path list \<Rightarrow> string option \<Rightarrow> int option \<Rightarrow> path list option" where
  "select_targets all_episodes date limit =
     (let targets =
            (if present date
             then filter (\<lambda>e. take (length (or_empty date)) (name e) = or_empty date) all_episodes
             else all_episodes)
      in if present date \<and> targets = [] then None
         else Some (case limit of
                      None \<Rightarrow> targets
                    | Some n \<Rightarrow> (if n = 0 then targets else slice_to n targets)))"

text \<open>
  \<^verbatim>\<open>
  success_count = 0
  for ep in targets:
      if upload_single_episode(api, ep, existing):
          success_count += 1
  \<close>
\<close>

fun upload_all ::
  "env \<Rightarrow> config \<Rightarrow> path list \<Rightarrow> lesson_index \<Rightarrow> nat \<Rightarrow> world \<Rightarrow> (error + nat) \<times> world" where
  "upload_all e cfg [] existing success_count w = (Inr success_count, w)"
| "upload_all e cfg (ep # rest) existing success_count w =
     (case upload_single_episode e cfg ep existing w of
        (Inl err, w1) \<Rightarrow> (Inl err, w1)
      | (Inr ok, w1) \<Rightarrow>
          upload_all e cfg rest existing (if ok then success_count + 1 else success_count) w1)"

text \<open>
  \<^verbatim>\<open>cmd_upload\<close>: the result is the pair that the last line prints, the number of
  successes and the number of targets, or nothing when the command returns early.
  \<^verbatim>\<open>LingQAPI()\<close> raises without a token. The command does not return when the index of
  the lessons never ends.
\<close>

definition cmd_upload ::
  "env \<Rightarrow> config \<Rightarrow> string option \<Rightarrow> int option \<Rightarrow> world \<Rightarrow>
   ((error + (nat \<times> nat) option) \<times> world) option" where
  "cmd_upload e cfg date limit w =
     (if \<not> present (LINGQ_API_TOKEN cfg) then Some (Inl ValueError, w)
      else
        (case find_episodes (fs w) (DATA_DIR cfg) of
           Inl err \<Rightarrow> Some (Inl err, w)
         | Inr all_episodes \<Rightarrow>
        (case select_targets all_episodes date limit of
           None \<Rightarrow> Some (Inr None, w)
         | Some targets \<Rightarrow>
        (case get_collection_lessons e (LINGQ_LANGUAGE_CODE cfg) (LINGQ_COURSE_ID cfg) w of
           None \<Rightarrow> None
         | Some (existing, w1) \<Rightarrow>
        (case upload_all e cfg targets existing 0 w1 of
           (Inl err, w2) \<Rightarrow> Some (Inl err, w2)
         | (Inr n, w2) \<Rightarrow> Some (Inr (Some (n, length targets)), w2))))))"

section \<open>Concrete inputs\<close>

text \<open>An episode address with capitals, an underscore and an escaped exclamation mark.\<close>

definition example_url :: string where
  "example_url = ''https://rfi.example/fr/20240315-Le_Journal%21/''"

text \<open>
  A run against a site with two listing pages and a third that does not answer. The
  second page repeats an episode of the first.
\<close>

definition example_config :: config where
  "example_config =
     \<lparr>LINGQ_API_TOKEN = Some ''secret'',
      LINGQ_LANGUAGE_CODE = ''fr'',
      LINGQ_COURSE_ID = 2570591,
      LINGQ_DEFAULT_TAGS = [''news'', ''rfi'', ''JFF''],
      LINGQ_DEFAULT_SHELVES = [''news''],
      RFI_BASE_URL = ''https://rfi.example/jff/'',
      DATA_DIR = [''srv'', ''data'']\<rparr>"

definition example_response :: "string \<Rightarrow> response" where
  "example_response b = \<lparr>status_code = 200, body = b, json_body = None, complete = True\<rparr>"

fun example_site :: "request list \<Rightarrow> request \<Rightarrow> response option" where
  "example_site done (GetPage u) =
     (if u = ''https://rfi.example/jff/'' then Some (example_response ''listing 0'')
      else if u = ''https://rfi.example/jff/?page=1'' then Some (example_response ''listing 1'')
      else None)"
| "example_site done _ = None"

definition example_links :: "string \<Rightarrow> error + (datetime \<times> string) list" where
  "example_links html =
     (if html = ''listing 0'' then
        Inr [((2024, 3, 15), ''https://rfi.example/jff/20240315-journal''),
             ((2024, 3, 14), ''https://rfi.example/jff/20240314-journal'')]
      else if html = ''listing 1'' then
        Inr [((2024, 3, 14), ''https://rfi.example/jff/20240314-journal''),
             ((2024, 3, 13), ''https://rfi.example/jff/20240313-journal''),
             ((2024, 3, 12), ''https://rfi.example/jff/20240312-journal'')]
      else Inr [])"

definition no_text :: "string \<Rightarrow> string option" where
  "no_text html = None"

definition example_listing_env :: env where
  "example_listing_env =
     \<lparr>network = example_site, unquote = unquote_ascii, find_episode_links = example_links,
      extract_transcript = no_text, extract_image_url = no_text\<rparr>"

definition empty_world :: world where
  "empty_world = \<lparr>fs = [], log = []\<rparr>"

text \<open>A media server with one file, and a server whose stream breaks.\<close>

fun example_media :: "request list \<Rightarrow> request \<Rightarrow> response option" where
  "example_media done (GetFile u) =
     (if u = ''https://aod.example/jff-20240315.mp3'' then Some (example_response ''ID3 audio'')
      else None)"
| "example_media done _ = None"

definition example_media_env :: env where
  "example_media_env =
     \<lparr>network = example_media, unquote = unquote_ascii, find_episode_links = example_links,
      extract_transcript = no_text, extract_image_url = no_text\<rparr>"

definition example_mp3_url :: string where
  "example_mp3_url = ''https://aod.example/jff-20240315.mp3''"

definition example_mp3_dest :: path where
  "example_mp3_dest = [''srv'', ''data'', ''2024-03-15-journal'', ''jff-20240315.mp3'']"

definition world_after_download :: world where
  "world_after_download =
     \<lparr>fs = [(''srv'', Dir [(''data'', Dir [(''2024-03-15-journal'',
              Dir [(''jff-20240315.mp3'', File ''ID3 audio'')])])])],
      log = [GetFile ''https://aod.example/jff-20240315.mp3'']\<rparr>"

text \<open>
  The page of one episode, with an audio address in its markup, and the two media files.
  Three walks over the page: one finds a transcript and a cover image, one finds an
  image address that holds a line feed, one finds an image address that holds a line
  feed followed by what reads as a metadata line.
\<close>

definition example_episode_url :: string where
  "example_episode_url = ''https://rfi.example/jff/20240315-journal''"

definition example_folder :: path where
  "example_folder = [''srv'', ''data'', ''2024-03-15-20240315-journal'']"

definition example_page :: response where
  "example_page = example_response ''<audio> https://aod.example/jff-20240315.mp3 </audio>''"

fun example_episode_site :: "request list \<Rightarrow> request \<Rightarrow> response option" where
  "example_episode_site done (GetPage u) =
     (if u = ''https://rfi.example/jff/20240315-journal'' then Some example_page else None)"
| "example_episode_site done (GetFile u) =
     (if u = ''https://aod.example/jff-20240315.mp3'' then Some (example_response ''ID3 audio'')
      else if u = ''https://img.example/cover.jpg'' then Some (example_response ''JPEG'')
      else None)"
| "example_episode_site done _ = None"

definition example_transcript :: "string \<Rightarrow> string option" where
  "example_transcript html = Some ''Bonjour.''"

definition example_image :: "string \<Rightarrow> string option" where
  "example_image html = Some ''https://img.example/cover.jpg''"

definition image_with_line_feed :: "string \<Rightarrow> string option" where
  "image_with_line_feed html = Some (''https://img.example/cover.jpg'' @ [CHR 0x0A] @ ''640w'')"

definition image_with_metadata_line :: "string \<Rightarrow> string option" where
  "image_with_metadata_line html =
     Some (''https://img.example/cover.jpg'' @ [CHR 0x0A] @ ''url: https://elsewhere.example/'')"

definition example_episode_env :: env where
  "example_episode_env =
     \<lparr>network = example_episode_site, unquote = unquote_ascii,
      find_episode_links = example_links,
      extract_transcript = example_transcript, extract_image_url = example_image\<rparr>"

definition line_feed_env :: env where
  "line_feed_env = example_episode_env\<lparr>extract_image_url := image_with_line_feed\<rparr>"

definition metadata_line_env :: env where
  "metadata_line_env = example_episode_env\<lparr>extract_image_url := image_with_metadata_line\<rparr>"

text \<open>
  A server that answers every request for a page of lessons with one lesson and a
  pointer to a next page, and a server with two pages of lessons, the second without
  such a pointer.
\<close>

definition endless_page :: response where
  "endless_page =
     \<lparr>status_code = 200, body = [],
      json_body = Some (JDict [(''results'', JList [JDict [(''title'', JStr ''Lesson''), (''id'', JNum 7)]]),
                               (''next'', JStr ''more'')]),
      complete = True\<rparr>"

definition endless_site :: "request list \<Rightarrow> request \<Rightarrow> response option" where
  "endless_site done req = Some endless_page"

definition endless_env :: env where
  "endless_env = example_listing_env\<lparr>network := endless_site\<rparr>"

definition lessons_json :: "string \<Rightarrow> int \<Rightarrow> json" where
  "lessons_json title pk = JList [JDict [(''title'', JStr title), (''id'', JNum pk)]]"

fun two_page_site :: "request list \<Rightarrow> request \<Rightarrow> response option" where
  "two_page_site done (GetLessons lang pk page) =
     (if page = 1 then
        Some \<lparr>status_code = 200, body = [],
              json_body = Some (JDict [(''results'', lessons_json ''Lesson one'' 11),
                                       (''next'', JStr ''page 2'')]),
              complete = True\<rparr>
      else if page = 2 then
        Some \<lparr>status_code = 200, body = [],
              json_body = Some (JDict [(''data'', lessons_json ''Lesson two'' 12), (''next'', JNull)]),
              complete = True\<rparr>
      else Some \<lparr>status_code = 404, body = [], json_body = None, complete = True\<rparr>)"
| "two_page_site done _ = None"

definition two_page_env :: env where
  "two_page_env = example_listing_env\<lparr>network := two_page_site\<rparr>"

text \<open>
  A data directory as the operating system lists it, newest episode first: three complete
  episodes, one of them with audio and cover, and a directory without a transcript.
\<close>

definition episode_files :: "string \<Rightarrow> (string \<times> node) list" where
  "episode_files day =
     [(''transcript.txt'', File ''Bonjour.''),
      (''episode.txt'', File (''url: https://rfi.example/jff/'' @ day @ ''-journal''))]"

definition upload_world :: world where
  "upload_world =
     \<lparr>fs = [(''srv'', Dir [(''data'', Dir
              [(''2024-03-16-draft'', Dir [(''image.jpg'', File ''JPEG'')]),
               (''2024-03-15-journal'', Dir (episode_files ''20240315'')),
               (''2024-03-13-journal'', Dir (episode_files ''20240313'')),
               (''2024-03-14-journal'',
                Dir (episode_files ''20240314'' @
                     [(''jff.MP3'', File ''ID3 audio''), (''image.jpg'', File ''JPEG'')]))])])],
      log = []\<rparr>"

definition draft_dir :: path where
  "draft_dir = [''srv'', ''data'', ''2024-03-16-draft'']"

definition episode_dir_13 :: path where
  "episode_dir_13 = [''srv'', ''data'', ''2024-03-13-journal'']"

definition episode_dir_14 :: path where
  "episode_dir_14 = [''srv'', ''data'', ''2024-03-14-journal'']"

definition episode_dir_15 :: path where
  "episode_dir_15 = [''srv'', ''data'', ''2024-03-15-journal'']"

text \<open>
  The platform: it creates every lesson but the one of 14 March, for which no answer
  arrives; it lists one lesson, that of 13 March.
\<close>

definition created :: response where
  "created = \<lparr>status_code = 201, body = [], json_body = Some (JDict [(''id'', JNum 99)]),
              complete = True\<rparr>"

fun lingq_site :: "request list \<Rightarrow> request \<Rightarrow> response option" where
  "lingq_site done (PostLesson lang form parts) =
     (if (''title'', lesson_title ''2024-03-14'') \<in> set form then None else Some created)"
| "lingq_site done (GetLessons lang pk page) =
     Some \<lparr>status_code = 200, body = [],
           json_body = Some (JDict [(''results'', lessons_json (lesson_title ''2024-03-13'') 13),
                                    (''next'', JNull)]),
           complete = True\<rparr>"
| "lingq_site done (PatchLesson lang lesson_id shelves tags) = Some (example_response [])"
| "lingq_site done (PostGenaudio lang lesson_id) = Some (example_response [])"
| "lingq_site done _ = None"

definition lingq_env :: env where
  "lingq_env = example_listing_env\<lparr>network := lingq_site\<rparr>"

text \<open>A site whose listing is there, whose newest episode page is not, and whose older one is.\<close>

fun flaky_site :: "request list \<Rightarrow> request \<Rightarrow> response option" where
  "flaky_site done (GetPage u) =
     (if u = ''https://rfi.example/jff/'' then Some (example_response ''listing 0'')
      else if u = ''https://rfi.example/jff/20240314-journal'' then Some example_page
      else None)"
| "flaky_site done _ = None"

definition flaky_env :: env where
  "flaky_env = example_episode_env\<lparr>network := flaky_site\<rparr>"

section \<open>Properties\<close>

subsection \<open>Strings\<close>

lemma split_on_not_Nil: "split_on c s \<noteq> []"
  by (induction s) (auto split: list.splits)

lemma rstrip_char_decomp: "\<exists>post. s = rstrip_char c s @ post \<and> set post \<subseteq> {c}"
proof -
  have "rev s = takeWhile (\<lambda>x. x = c) (rev s) @ dropWhile (\<lambda>x. x = c) (rev s)" by simp
  then have "s = rev (dropWhile (\<lambda>x. x = c) (rev s)) @ rev (takeWhile (\<lambda>x. x = c) (rev s))"
    by (metis rev_append rev_rev_ident)
  moreover have "set (rev (takeWhile (\<lambda>x. x = c) (rev s))) \<subseteq> {c}"
    by (auto dest: set_takeWhileD)
  ultimately show ?thesis unfolding rstrip_char_def by blast
qed

lemma strip_char_decomp:
  "\<exists>pre post. s = pre @ strip_char c s @ post \<and> set pre \<subseteq> {c} \<and> set post \<subseteq> {c}"
proof -
  obtain post where p: "dropWhile (\<lambda>x. x = c) s = strip_char c s @ post" "set post \<subseteq> {c}"
    using rstrip_char_decomp[of "dropWhile (\<lambda>x. x = c) s" c] unfolding strip_char_def by blast
  have "s = takeWhile (\<lambda>x. x = c) s @ dropWhile (\<lambda>x. x = c) s" by simp
  moreover have "set (takeWhile (\<lambda>x. x = c) s) \<subseteq> {c}" by (auto dest: set_takeWhileD)
  ultimately show ?thesis using p by metis
qed

lemma rstrip_char_last: "rstrip_char c s = [] \<or> last (rstrip_char c s) \<noteq> c"
  using hd_dropWhile[of "\<lambda>x. x = c" "rev s"]
  by (auto simp: rstrip_char_def last_rev)

lemma rstrip_char_hd: "rstrip_char c s \<noteq> [] \<Longrightarrow> hd (rstrip_char c s) = hd s"
  using rstrip_char_decomp[of s c] by (metis hd_append2)

lemma rstrip_char_Nil: "rstrip_char c [] = []"
  by (simp add: rstrip_char_def)

lemma strip_char_ends:
  "strip_char c s = [] \<or> (hd (strip_char c s) \<noteq> c \<and> last (strip_char c s) \<noteq> c)"
proof (cases "strip_char c s = []")
  case True
  then show ?thesis by simp
next
  case False
  let ?d = "dropWhile (\<lambda>x. x = c) s"
  have ne: "?d \<noteq> []" using False rstrip_char_Nil by (metis strip_char_def)
  have "hd (strip_char c s) = hd ?d"
    using False rstrip_char_hd[of c ?d] by (simp add: strip_char_def)
  moreover have "hd ?d \<noteq> c" using hd_dropWhile[OF ne] by simp
  moreover have "last (strip_char c s) \<noteq> c"
    using False rstrip_char_last[of c ?d] by (simp add: strip_char_def)
  ultimately show ?thesis by simp
qed

lemma filter_strip_char:
  assumes "\<not> P c"
  shows "filter P (strip_char c s) = filter P s"
proof -
  obtain pre post where d: "s = pre @ strip_char c s @ post" "set pre \<subseteq> {c}" "set post \<subseteq> {c}"
    using strip_char_decomp by blast
  have "filter P pre = []" "filter P post = []"
    using d(2,3) assms by (auto simp: filter_empty_conv)
  then show ?thesis using d(1) by (metis append_Nil append_Nil2 filter_append)
qed

subsection \<open>The slug\<close>

lemma not_alnum_hyphen: "\<not> is_alnum CHR ''-''"
  by (simp add: is_alnum_def)

lemma filter_re_sub: "filter is_alnum (re_sub_non_alnum s) = filter is_alnum s"
proof (induction s rule: re_sub_non_alnum.induct)
  case 1
  then show ?case by simp
next
  case (2 c cs)
  have d: "filter is_alnum (dropWhile (\<lambda>x. \<not> is_alnum x) cs) = filter is_alnum cs"
    by (induction cs) auto
  show ?case using 2 not_alnum_hyphen d by auto
qed

lemma set_re_sub: "set (re_sub_non_alnum s) \<subseteq> {c. is_alnum c} \<union> {CHR ''-''}"
  by (induction s rule: re_sub_non_alnum.induct) auto

lemma re_sub_keeps_hd:
  "d = [] \<or> is_alnum (hd d) \<Longrightarrow>
   re_sub_non_alnum d = [] \<or> is_alnum (hd (re_sub_non_alnum d))"
  by (cases d) auto

lemma re_sub_after_run:
  "re_sub_non_alnum (dropWhile (\<lambda>x. \<not> is_alnum x) cs) = [] \<or>
   is_alnum (hd (re_sub_non_alnum (dropWhile (\<lambda>x. \<not> is_alnum x) cs)))"
proof (rule re_sub_keeps_hd)
  show "dropWhile (\<lambda>x. \<not> is_alnum x) cs = [] \<or>
        is_alnum (hd (dropWhile (\<lambda>x. \<not> is_alnum x) cs))"
    using hd_dropWhile[of "\<lambda>x. \<not> is_alnum x" cs] by blast
qed

text \<open>A run of characters outside the class leaves one hyphen, never two in a row.\<close>

lemma re_sub_no_double: "re_sub_non_alnum s \<noteq> xs @ CHR ''-'' # CHR ''-'' # ys"
proof (induction s arbitrary: xs rule: re_sub_non_alnum.induct)
  case 1
  then show ?case by simp
next
  case (2 c cs)
  show ?case
  proof (cases "is_alnum c")
    case True
    then show ?thesis using 2(1)[OF True] not_alnum_hyphen by (cases xs) auto
  next
    case False
    let ?r = "re_sub_non_alnum (dropWhile (\<lambda>x. \<not> is_alnum x) cs)"
    have r: "?r = [] \<or> is_alnum (hd ?r)" by (rule re_sub_after_run)
    have eq: "re_sub_non_alnum (c # cs) = CHR ''-'' # ?r" using False by simp
    show ?thesis
    proof (cases xs)
      case Nil
      then show ?thesis using r not_alnum_hyphen eq by (cases ?r) auto
    next
      case (Cons x xs')
      then show ?thesis using 2(2)[OF False, of xs'] eq by auto
    qed
  qed
qed

text \<open>
  Between two hyphens, and before the first and behind the last: what the slug consists of.
\<close>

lemma safe_slug_from_url_hyphens:
  "safe_slug_from_url unq url \<noteq> [] \<and>
   set (safe_slug_from_url unq url) \<subseteq> {c. is_alnum c} \<union> {CHR ''-''} \<and>
   hd (safe_slug_from_url unq url) \<noteq> CHR ''-'' \<and>
   last (safe_slug_from_url unq url) \<noteq> CHR ''-'' \<and>
   (\<nexists>xs ys. safe_slug_from_url unq url = xs @ ''--'' @ ys) \<and>
   (if filter is_alnum (unq (last_segment url)) = []
    then safe_slug_from_url unq url = ''episode''
    else filter is_alnum (safe_slug_from_url unq url) =
         filter is_alnum (unq (last_segment url)))"
proof -
  let ?t = "unq (last_segment url)"
  let ?s = "strip_char CHR ''-'' (re_sub_non_alnum ?t)"
  have fs: "filter is_alnum ?s = filter is_alnum ?t"
    using filter_strip_char[of is_alnum "CHR ''-''", OF not_alnum_hyphen] filter_re_sub by simp
  obtain pre post where d: "re_sub_non_alnum ?t = pre @ ?s @ post"
    using strip_char_decomp by blast
  have sub: "set ?s \<subseteq> {c. is_alnum c} \<union> {CHR ''-''}"
  proof -
    have "set ?s \<subseteq> set (re_sub_non_alnum ?t)"
      using d by (metis Un_upper1 Un_upper2 set_append subset_trans)
    then show ?thesis using set_re_sub by blast
  qed
  have nd: "\<nexists>xs ys. ?s = xs @ ''--'' @ ys"
  proof
    assume "\<exists>xs ys. ?s = xs @ ''--'' @ ys"
    then obtain xs ys where "?s = xs @ ''--'' @ ys" by blast
    then have "re_sub_non_alnum ?t = (pre @ xs) @ CHR ''-'' # CHR ''-'' # (ys @ post)"
      using d by simp
    then show False using re_sub_no_double by blast
  qed
  show ?thesis
  proof (cases "?s = []")
    case True
    then have "filter is_alnum ?t = []" using fs by simp
    moreover have "safe_slug_from_url unq url = ''episode''"
      using True by (simp add: safe_slug_from_url_def)
    moreover have "set ''episode'' \<subseteq> {c. is_alnum c} \<union> {CHR ''-''}"
      by (simp add: is_alnum_def)
    moreover have "\<nexists>xs ys. ''episode'' = xs @ ''--'' @ ys"
      by (auto simp: append_eq_Cons_conv Cons_eq_append_conv)
    ultimately show ?thesis by simp
  next
    case False
    then have eq: "safe_slug_from_url unq url = ?s"
      by (simp add: safe_slug_from_url_def Let_def)
    have "filter is_alnum ?t \<noteq> []"
    proof
      assume "filter is_alnum ?t = []"
      then have "filter is_alnum ?s = []" using fs by simp
      then have "\<forall>c \<in> set ?s. c = CHR ''-''" using sub by (auto simp: filter_empty_conv)
      then have "hd ?s = CHR ''-''" using False by (metis hd_in_set)
      then show False
        using strip_char_ends[of "CHR ''-''" "re_sub_non_alnum ?t"] False by simp
    qed
    then show ?thesis
      using eq False sub nd fs strip_char_ends[of "CHR ''-''" "re_sub_non_alnum ?t"] by simp
  qed
qed

lemma takeWhile_all: "\<forall>x \<in> set (takeWhile P xs). P x"
  by (induction xs) auto

lemma alnum_runs_elements:
  "\<forall>r \<in> set (alnum_runs s). r \<noteq> [] \<and> (\<forall>c \<in> set r. is_alnum c)"
proof (induction s rule: alnum_runs.induct)
  case 1
  then show ?case by simp
next
  case (2 c cs)
  show ?case
  proof (cases "is_alnum c")
    case True
    have tw: "\<forall>x \<in> set (takeWhile is_alnum cs). is_alnum x" by (rule takeWhile_all)
    have eq: "alnum_runs (c # cs) =
        (c # takeWhile is_alnum cs) # alnum_runs (dropWhile is_alnum cs)"
      using True by simp
    show ?thesis unfolding eq using tw True 2(1)[OF True] by auto
  next
    case False
    have eq: "alnum_runs (c # cs) = alnum_runs (dropWhile (\<lambda>x. \<not> is_alnum x) cs)"
      using False by simp
    show ?thesis unfolding eq using 2(2)[OF False] .
  qed
qed

lemma concat_alnum_runs: "concat (alnum_runs s) = filter is_alnum s"
proof (induction s rule: alnum_runs.induct)
  case 1
  then show ?case by simp
next
  case (2 c cs)
  show ?case
  proof (cases "is_alnum c")
    case True
    have "filter is_alnum cs =
          filter is_alnum (takeWhile is_alnum cs @ dropWhile is_alnum cs)" by simp
    also have "\<dots> = takeWhile is_alnum cs @ filter is_alnum (dropWhile is_alnum cs)"
    proof -
      have "\<forall>x \<in> set (takeWhile is_alnum cs). is_alnum x" by (rule takeWhile_all)
      then have "filter is_alnum (takeWhile is_alnum cs) = takeWhile is_alnum cs"
        by (rule filter_True)
      then show ?thesis unfolding filter_append by simp
    qed
    finally show ?thesis using True 2(1) by simp
  next
    case False
    have "filter is_alnum cs =
          filter is_alnum (takeWhile (\<lambda>x. \<not> is_alnum x) cs @ dropWhile (\<lambda>x. \<not> is_alnum x) cs)"
      by simp
    also have "\<dots> = filter is_alnum (dropWhile (\<lambda>x. \<not> is_alnum x) cs)"
    proof -
      have "\<forall>x \<in> set (takeWhile (\<lambda>x. \<not> is_alnum x) cs). \<not> is_alnum x"
        by (rule takeWhile_all)
      then have "filter is_alnum (takeWhile (\<lambda>x. \<not> is_alnum x) cs) = []"
        by (rule filter_False)
      then show ?thesis unfolding filter_append by simp
    qed
    finally show ?thesis using False 2(2) by simp
  qed
qed

lemma alnum_runs_skip: "alnum_runs (dropWhile (\<lambda>x. \<not> is_alnum x) s) = alnum_runs s"
  by (cases s) simp_all

lemma re_sub_alnum_prefix:
  "\<forall>c \<in> set a. is_alnum c \<Longrightarrow> re_sub_non_alnum (a @ b) = a @ re_sub_non_alnum b"
  by (induction a) simp_all

lemma re_sub_skip:
  "dropWhile (\<lambda>x. x = CHR ''-'') (re_sub_non_alnum s) =
   re_sub_non_alnum (dropWhile (\<lambda>x. \<not> is_alnum x) s)"
proof (cases s)
  case Nil
  then show ?thesis by simp
next
  case (Cons c cs)
  show ?thesis
  proof (cases "is_alnum c")
    case True
    then have "c \<noteq> CHR ''-''" using not_alnum_hyphen by auto
    then show ?thesis using Cons True by simp
  next
    case False
    let ?r = "re_sub_non_alnum (dropWhile (\<lambda>x. \<not> is_alnum x) cs)"
    have "?r = [] \<or> is_alnum (hd ?r)" by (rule re_sub_after_run)
    then have "dropWhile (\<lambda>x. x = CHR ''-'') ?r = ?r"
      using not_alnum_hyphen by (cases ?r) auto
    then show ?thesis using Cons False by simp
  qed
qed

lemma rstrip_char_id: "s = [] \<or> last s \<noteq> c \<Longrightarrow> rstrip_char c s = s"
  unfolding rstrip_char_def by (cases s rule: rev_cases) auto

lemma rstrip_char_append:
  assumes "rstrip_char c y \<noteq> []"
  shows "rstrip_char c (x @ y) = x @ rstrip_char c y"
proof -
  from assms have "dropWhile (\<lambda>z. z = c) (rev y) \<noteq> []" unfolding rstrip_char_def by simp
  then obtain z where "z \<in> set (rev y)" "z \<noteq> c"
    by (metis (mono_tags, lifting) dropWhile_eq_Nil_conv)
  then have "dropWhile (\<lambda>z. z = c) (rev y @ rev x) = dropWhile (\<lambda>z. z = c) (rev y) @ rev x"
    by (intro dropWhile_append1)
  then show ?thesis unfolding rstrip_char_def by simp
qed

lemma rstrip_char_snoc: "rstrip_char c (x @ [c]) = rstrip_char c x"
  unfolding rstrip_char_def by simp

lemma join_with_Cons:
  "join_with c (p # ps) = (if ps = [] then p else p @ c # join_with c ps)"
  by (cases ps) simp_all

lemma alnum_runs_hd: "alnum_runs s = r # rs \<Longrightarrow> r \<noteq> []"
proof -
  assume a: "alnum_runs s = r # rs"
  have "r \<in> set (alnum_runs s)" unfolding a by simp
  then show ?thesis using alnum_runs_elements[of s] by blast
qed

lemma rstrip_re_sub_runs:
  "s = [] \<or> is_alnum (hd s) \<Longrightarrow>
   rstrip_char CHR ''-'' (re_sub_non_alnum s) = join_with CHR ''-'' (alnum_runs s)"
proof (induction s rule: length_induct)
  case (1 s)
  show ?case
  proof (cases s)
    case Nil
    then show ?thesis by (simp add: rstrip_char_def)
  next
    case (Cons c cs)
    then have c: "is_alnum c" using 1(2) by simp
    define a where "a = takeWhile is_alnum s"
    define b where "b = dropWhile is_alnum s"
    have s: "s = a @ b" by (simp add: a_def b_def)
    have a: "a \<noteq> []" "\<forall>x \<in> set a. is_alnum x"
    proof -
      show "a \<noteq> []" using Cons c by (simp add: a_def)
      show "\<forall>x \<in> set a. is_alnum x" unfolding a_def by (rule takeWhile_all)
    qed
    then have "is_alnum (last a)" by simp
    then have la: "last a \<noteq> CHR ''-''" using not_alnum_hyphen by auto
    have runs: "alnum_runs s = a # alnum_runs b" using Cons c by (simp add: a_def b_def)
    have R: "re_sub_non_alnum s = a @ re_sub_non_alnum b"
      using re_sub_alnum_prefix[OF a(2), of b] s by simp
    show ?thesis
    proof (cases b)
      case Nil
      then show ?thesis using R runs la by (simp add: rstrip_char_id)
    next
      case b: (Cons x xs)
      have nx: "\<not> is_alnum x"
        using hd_dropWhile[of is_alnum s] b unfolding b_def by auto
      define s' where "s' = dropWhile (\<lambda>x. \<not> is_alnum x) xs"
      have "length s' \<le> length xs" unfolding s'_def by (rule length_dropWhile_le)
      then have len: "length s' < length s" using s b by simp
      have hs': "s' = [] \<or> is_alnum (hd s')"
        unfolding s'_def using hd_dropWhile[of "\<lambda>x. \<not> is_alnum x" xs] by auto
      have IH: "rstrip_char CHR ''-'' (re_sub_non_alnum s') = join_with CHR ''-'' (alnum_runs s')"
        using 1(1) len hs' by blast
      have Rb: "re_sub_non_alnum b = CHR ''-'' # re_sub_non_alnum s'"
        using b nx by (simp add: s'_def)
      have rb: "alnum_runs b = alnum_runs s'" using b nx by (simp add: s'_def)
      show ?thesis
      proof (cases s')
        case Nil
        then have "re_sub_non_alnum s = a @ [CHR ''-'']" using R Rb by simp
        then have "rstrip_char CHR ''-'' (re_sub_non_alnum s) = a"
          using la by (simp add: rstrip_char_snoc rstrip_char_id)
        then show ?thesis using runs rb Nil by simp
      next
        case s'': (Cons y ys)
        then have y: "is_alnum y" using hs' by simp
        then have ne: "alnum_runs s' \<noteq> []" using s'' by simp
        then obtain r rs where rr: "alnum_runs s' = r # rs" by (cases "alnum_runs s'") auto
        then have "r \<noteq> []" by (rule alnum_runs_hd)
        then have "join_with CHR ''-'' (alnum_runs s') \<noteq> []"
          unfolding rr by (simp add: join_with_Cons)
        then have "rstrip_char CHR ''-'' (re_sub_non_alnum s') \<noteq> []" using IH by simp
        then have "rstrip_char CHR ''-'' ((a @ [CHR ''-'']) @ re_sub_non_alnum s') =
                   (a @ [CHR ''-'']) @ rstrip_char CHR ''-'' (re_sub_non_alnum s')"
          by (rule rstrip_char_append)
        then have "rstrip_char CHR ''-'' (re_sub_non_alnum s) =
                   a @ CHR ''-'' # join_with CHR ''-'' (alnum_runs s')"
          using R Rb IH by simp
        then show ?thesis using runs rb ne by (simp add: join_with_Cons)
      qed
    qed
  qed
qed

lemma strip_re_sub_runs:
  "strip_char CHR ''-'' (re_sub_non_alnum s) = join_with CHR ''-'' (alnum_runs s)"
proof -
  let ?s = "dropWhile (\<lambda>x. \<not> is_alnum x) s"
  have "?s = [] \<or> is_alnum (hd ?s)"
    using hd_dropWhile[of "\<lambda>x. \<not> is_alnum x" s] by auto
  then have "rstrip_char CHR ''-'' (re_sub_non_alnum ?s) = join_with CHR ''-'' (alnum_runs ?s)"
    by (rule rstrip_re_sub_runs)
  then show ?thesis
    unfolding strip_char_def re_sub_skip alnum_runs_skip .
qed

lemma join_alnum_runs_Nil:
  "join_with CHR ''-'' (alnum_runs s) = [] \<longleftrightarrow> alnum_runs s = []"
proof (cases "alnum_runs s")
  case Nil
  then show ?thesis by simp
next
  case (Cons r rs)
  then have "r \<noteq> []" by (rule alnum_runs_hd)
  then show ?thesis unfolding Cons by (simp add: join_with_Cons)
qed

lemma safe_slug_runs:
  "safe_slug_from_url unq url =
     (case alnum_runs (unq (last_segment url)) of
        [] \<Rightarrow> ''episode''
      | r # rs \<Rightarrow> join_with CHR ''-'' (r # rs))"
proof (cases "alnum_runs (unq (last_segment url))")
  case Nil
  then show ?thesis
    by (simp add: safe_slug_from_url_def strip_re_sub_runs)
next
  case (Cons r rs)
  then have "join_with CHR ''-'' (alnum_runs (unq (last_segment url))) \<noteq> []"
    using join_alnum_runs_Nil[of "unq (last_segment url)"] by simp
  then show ?thesis
    using Cons by (simp add: safe_slug_from_url_def strip_re_sub_runs Let_def)
qed

lemma dropWhile_hd_not: "dropWhile P xs = [] \<or> \<not> P (hd (dropWhile P xs))"
  using hd_dropWhile[of P xs] by blast

lemma alnum_runs_then_gaps:
  "s = [] \<or> is_alnum (hd s) \<Longrightarrow>
   \<exists>gaps. length gaps = length (alnum_runs s) \<and>
          (\<forall>p \<in> set gaps. \<forall>c \<in> set p. \<not> is_alnum c) \<and>
          (\<forall>p \<in> set (butlast gaps). p \<noteq> []) \<and>
          s = concat (splice (alnum_runs s) gaps)"
proof (induction s rule: length_induct)
  case (1 s)
  show ?case
  proof (cases s)
    case Nil
    then show ?thesis by simp
  next
    case (Cons c cs)
    then have c: "is_alnum c" using 1(2) by simp
    define a where "a = takeWhile is_alnum s"
    define b where "b = dropWhile is_alnum s"
    define g where "g = takeWhile (\<lambda>x. \<not> is_alnum x) b"
    define s' where "s' = dropWhile (\<lambda>x. \<not> is_alnum x) b"
    have s: "s = a @ g @ s'" by (simp add: a_def b_def g_def s'_def)
    have a: "a \<noteq> []" using Cons c by (simp add: a_def)
    have g: "\<forall>c \<in> set g. \<not> is_alnum c" unfolding g_def by (rule takeWhile_all)
    have hb: "b = [] \<or> \<not> is_alnum (hd b)" unfolding b_def by (rule dropWhile_hd_not)
    have runs: "alnum_runs s = a # alnum_runs s'"
    proof -
      have "alnum_runs s = a # alnum_runs b" using Cons c by (simp add: a_def b_def)
      moreover have "alnum_runs s' = alnum_runs b" unfolding s'_def by (rule alnum_runs_skip)
      ultimately show ?thesis by simp
    qed
    have "length s' \<le> length b" unfolding s'_def by (rule length_dropWhile_le)
    moreover have "length b < length s" using Cons c by (simp add: b_def le_imp_less_Suc length_dropWhile_le)
    ultimately have len: "length s' < length s" by simp
    have hs': "s' = [] \<or> is_alnum (hd s')"
      unfolding s'_def using dropWhile_hd_not[of "\<lambda>x. \<not> is_alnum x" b] by simp
    from 1(1) len hs' obtain gaps where
      gl: "length gaps = length (alnum_runs s')" and
      ga: "\<forall>p \<in> set gaps. \<forall>c \<in> set p. \<not> is_alnum c" and
      gn: "\<forall>p \<in> set (butlast gaps). p \<noteq> []" and
      gs: "s' = concat (splice (alnum_runs s') gaps)"
      by blast
    have gne: "gaps \<noteq> [] \<Longrightarrow> g \<noteq> []"
    proof -
      assume "gaps \<noteq> []"
      then have "alnum_runs s' \<noteq> []" using gl by auto
      then have "s' \<noteq> []" by auto
      then have "b \<noteq> []" unfolding s'_def by auto
      then have "\<not> is_alnum (hd b)" using hb by simp
      then show "g \<noteq> []" using \<open>b \<noteq> []\<close> unfolding g_def by (cases b) simp_all
    qed
    have p1: "length (g # gaps) = length (alnum_runs s)" using gl runs by simp
    have p2: "\<forall>p \<in> set (g # gaps). \<forall>c \<in> set p. \<not> is_alnum c" using g ga by simp
    have p3: "\<forall>p \<in> set (butlast (g # gaps)). p \<noteq> []" using gn gne by simp
    have "concat (splice (alnum_runs s) (g # gaps)) = a @ g @ concat (splice (alnum_runs s') gaps)"
      unfolding runs by simp
    then have p4: "s = concat (splice (alnum_runs s) (g # gaps))" using s gs by simp
    from p1 p2 p3 p4 show ?thesis by (intro exI[of _ "g # gaps"] conjI)
  qed
qed

lemma alnum_runs_between:
  "\<exists>seps. length seps = Suc (length (alnum_runs s)) \<and>
          (\<forall>p \<in> set seps. \<forall>c \<in> set p. \<not> is_alnum c) \<and>
          (\<forall>p \<in> set (butlast (tl seps)). p \<noteq> []) \<and>
          s = concat (splice seps (alnum_runs s))"
proof -
  define g where "g = takeWhile (\<lambda>x. \<not> is_alnum x) s"
  define s' where "s' = dropWhile (\<lambda>x. \<not> is_alnum x) s"
  have s: "s = g @ s'" by (simp add: g_def s'_def)
  have g: "\<forall>c \<in> set g. \<not> is_alnum c" unfolding g_def by (rule takeWhile_all)
  have r: "alnum_runs s' = alnum_runs s" unfolding s'_def by (rule alnum_runs_skip)
  have "s' = [] \<or> is_alnum (hd s')"
    unfolding s'_def using dropWhile_hd_not[of "\<lambda>x. \<not> is_alnum x" s] by simp
  then obtain gaps where
      gl: "length gaps = length (alnum_runs s')" and
      ga: "\<forall>p \<in> set gaps. \<forall>c \<in> set p. \<not> is_alnum c" and
      gn: "\<forall>p \<in> set (butlast gaps). p \<noteq> []" and
      gs: "s' = concat (splice (alnum_runs s') gaps)"
    using alnum_runs_then_gaps[of s'] by blast
  have p1: "length (g # gaps) = Suc (length (alnum_runs s))" using gl r by simp
  have p2: "\<forall>p \<in> set (g # gaps). \<forall>c \<in> set p. \<not> is_alnum c" using g ga by simp
  have p3: "\<forall>p \<in> set (butlast (tl (g # gaps))). p \<noteq> []" using gn by simp
  have "concat (splice (g # gaps) (alnum_runs s)) = g @ concat (splice (alnum_runs s') gaps)"
    unfolding r by simp
  then have p4: "s = concat (splice (g # gaps) (alnum_runs s))" using s gs by simp
  from p1 p2 p3 p4 show ?thesis by (intro exI[of _ "g # gaps"] conjI)
qed

text \<open>
  Claim C2, as the code has it. Let \<open>t\<close> be the percent-decoded last path segment of the
  address. \<open>t\<close> is a run of characters outside \<^verbatim>\<open>[a-zA-Z0-9]\<close> (maybe empty), then a
  non-empty run of characters of that class, then a non-empty run of other characters,
  and so on, up to a last run of other characters (maybe empty): \<open>alnum_runs t\<close> are the
  runs of letters and digits and \<open>seps\<close> the runs of other characters. The slug is the
  runs of letters and digits, each as it stands in \<open>t\<close> (nothing is lowercased), with
  one hyphen where a run of other characters stood between two of them and nothing for
  the runs of other characters at the two ends; it is \<open>episode\<close> when \<open>t\<close> has no letter
  and no digit. So the slug is never empty, consists of letters, digits and hyphens,
  neither starts nor ends with a hyphen and has no two hyphens in a row.
\<close>

theorem safe_slug_from_url_shape:
  "safe_slug_from_url unq url =
     (case alnum_runs (unq (last_segment url)) of
        [] \<Rightarrow> ''episode''
      | r # rs \<Rightarrow> join_with CHR ''-'' (r # rs)) \<and>
   (\<forall>r \<in> set (alnum_runs (unq (last_segment url))).
      r \<noteq> [] \<and> (\<forall>c \<in> set r. is_alnum c)) \<and>
   (\<exists>seps. length seps = Suc (length (alnum_runs (unq (last_segment url)))) \<and>
          (\<forall>p \<in> set seps. \<forall>c \<in> set p. \<not> is_alnum c) \<and>
          (\<forall>p \<in> set (butlast (tl seps)). p \<noteq> []) \<and>
          unq (last_segment url) =
            concat (splice seps (alnum_runs (unq (last_segment url))))) \<and>
   safe_slug_from_url unq url \<noteq> [] \<and>
   set (safe_slug_from_url unq url) \<subseteq> {c. is_alnum c} \<union> {CHR ''-''} \<and>
   hd (safe_slug_from_url unq url) \<noteq> CHR ''-'' \<and>
   last (safe_slug_from_url unq url) \<noteq> CHR ''-'' \<and>
   (\<nexists>xs ys. safe_slug_from_url unq url = xs @ ''--'' @ ys) \<and>
   (if filter is_alnum (unq (last_segment url)) = []
    then safe_slug_from_url unq url = ''episode''
    else filter is_alnum (safe_slug_from_url unq url) =
         filter is_alnum (unq (last_segment url)))"
proof -
  note runs = safe_slug_runs[of unq url]
  note elements = alnum_runs_elements[of "unq (last_segment url)"]
  note between = alnum_runs_between[of "unq (last_segment url)"]
  note hyphens = safe_slug_from_url_hyphens[of unq url]
  from conjI[OF runs conjI[OF elements conjI[OF between hyphens]]] show ?thesis .
qed

theorem safe_slug_from_url_shape_witness:
  "alnum_runs (unquote_ascii (last_segment example_url)) = [''20240315'', ''Le'', ''Journal''] \<and>
   safe_slug_from_url unquote_ascii example_url = ''20240315-Le-Journal''"
proof -
  have r: "alnum_runs (unquote_ascii (last_segment example_url)) =
             [''20240315'', ''Le'', ''Journal'']"
    by code_simp
  have "safe_slug_from_url unquote_ascii example_url =
     (case alnum_runs (unquote_ascii (last_segment example_url)) of
        [] \<Rightarrow> ''episode''
      | r # rs \<Rightarrow> join_with CHR ''-'' (r # rs))"
    using safe_slug_from_url_shape[of unquote_ascii example_url] by (rule conjunct1)
  then show ?thesis unfolding r by simp
qed

text \<open>
  The slug is not lowercased: the capitals of the last path segment stay capitals, where
  the specification's wording gives small letters.
\<close>

theorem safe_slug_from_url_keeps_case:
  "safe_slug_from_url unquote_ascii ''https://rfi.example/fr/20240315-Le_Journal'' \<noteq>
     slug_as_specified ''https://rfi.example/fr/20240315-Le_Journal''"
  by code_simp

subsection \<open>The listing\<close>

lemma collect_chunk_distinct:
  "distinct (map fst collected) \<Longrightarrow> distinct (map fst (collect_chunk chunk collected))"
  unfolding collect_chunk_def
  by (induction chunk arbitrary: collected) (simp_all add: distinct_update)

lemma listing_pages_distinct:
  "distinct (map fst collected) \<Longrightarrow> listing_pages e cfg ps collected w = (Inr c', w') \<Longrightarrow>
   distinct (map fst c')"
proof (induction ps arbitrary: collected w)
  case Nil
  then show ?case by simp
next
  case (Cons page rest)
  show ?case
    using Cons.prems Cons.IH collect_chunk_distinct
    by (auto simp: Let_def split: prod.splits sum.splits if_splits)
qed

lemma sorted_reverse_desc: "sorted_wrt (\<lambda>a b. k b \<le> k a) (sorted_reverse k xs)"
proof -
  have "sorted (map k (sort_key k (rev xs)))" by simp
  then have "sorted_wrt (\<lambda>a b. k a \<le> k b) (sort_key k (rev xs))"
    by (simp add: sorted_map)
  then show ?thesis
    unfolding sorted_reverse_def by (simp add: sorted_wrt_rev)
qed

lemma sorted_reverse_distinct_map:
  "distinct (map f (sorted_reverse k xs)) = distinct (map f xs)"
  unfolding sorted_reverse_def by (simp add: distinct_map)

lemma set_sorted_reverse: "set (sorted_reverse k xs) = set xs"
  unfolding sorted_reverse_def by simp

lemma length_filter_sorted_reverse:
  "length (filter P (sorted_reverse k xs)) = length (filter P xs)"
proof -
  have "filter P (sorted_reverse k xs) = rev (sort_key k (filter P (rev xs)))"
    unfolding sorted_reverse_def by (simp add: rev_filter[symmetric] filter_sort)
  then show ?thesis by (simp add: rev_filter[symmetric])
qed

lemma distinct_map_take: "distinct (map f xs) \<Longrightarrow> distinct (map f (take n xs))"
  by (metis distinct_take take_map)

lemma sorted_desc_take_rest:
  assumes "sorted_wrt (\<lambda>a b. k b \<le> k a) xs"
  shows "\<forall>x \<in> set (take n xs). \<forall>y \<in> set xs - set (take n xs). k y \<le> k x"
proof -
  have "sorted_wrt (\<lambda>a b. k b \<le> k a) (take n xs @ drop n xs)" using assms by simp
  then have "\<forall>x \<in> set (take n xs). \<forall>y \<in> set (drop n xs). k y \<le> k x"
    unfolding sorted_wrt_append by blast
  moreover have "set xs - set (take n xs) \<subseteq> set (drop n xs)"
    by (metis Diff_subset_conv append_take_drop_id set_append sup_commute subset_refl)
  ultimately show ?thesis by blast
qed

text \<open>The episodes that pass the filter, newest first: the list that the limit cuts.\<close>

lemma eligible_list:
  fixes collected :: "(string \<times> datetime) list" and since :: "datetime option"
  defines "el \<equiv> filter (\<lambda>item. on_or_after since (fst item))
                  (sorted_reverse fst (map (\<lambda>kv. (snd kv, fst kv)) collected))"
  assumes "distinct (map fst collected)"
  shows "distinct (map snd el)"
    and "sorted_wrt (\<lambda>a b. fst b \<le> fst a) el"
    and "set el = {(d, u). (u, d) \<in> set collected \<and> on_or_after since d}"
    and "length el = length (filter (\<lambda>kv. on_or_after since (snd kv)) collected)"
proof -
  have "distinct (map snd (map (\<lambda>kv. (snd kv, fst kv)) collected))"
    using assms(2) by (simp add: comp_def)
  then have "distinct (map snd (sorted_reverse fst (map (\<lambda>kv. (snd kv, fst kv)) collected)))"
    by (simp only: sorted_reverse_distinct_map)
  then show "distinct (map snd el)" unfolding el_def by (rule distinct_map_filter)
  show "sorted_wrt (\<lambda>a b. fst b \<le> fst a) el"
    unfolding el_def by (simp add: sorted_reverse_desc sorted_wrt_filter)
  show "set el = {(d, u). (u, d) \<in> set collected \<and> on_or_after since d}"
    unfolding el_def by (force simp: set_sorted_reverse image_iff)
  show "length el = length (filter (\<lambda>kv. on_or_after since (snd kv)) collected)"
    unfolding el_def by (simp add: length_filter_sorted_reverse filter_map comp_def)
qed

lemma fetch_listing_returns:
  assumes "listing_pages e cfg [0 ..< nat (max 1 pages)] [] w = (Inr collected, w')"
  shows "fetch_listing e cfg limit since pages w =
     (Inr (let el = filter (\<lambda>item. on_or_after since (fst item))
                      (sorted_reverse fst (map (\<lambda>kv. (snd kv, fst kv)) collected))
           in case limit of None \<Rightarrow> el | Some n \<Rightarrow> if n = 0 then el else slice_to n el), w')"
  unfolding fetch_listing_def Let_def using assms
  by (cases since; cases limit) (simp_all add: on_or_after_def)


lemma listing_pages_example:
  "listing_pages example_listing_env example_config [0 ..< nat (max 1 3)] [] empty_world =
     (Inr [(''https://rfi.example/jff/20240315-journal'', (2024, 3, 15)),
           (''https://rfi.example/jff/20240314-journal'', (2024, 3, 14)),
           (''https://rfi.example/jff/20240313-journal'', (2024, 3, 13)),
           (''https://rfi.example/jff/20240312-journal'', (2024, 3, 12))],
      \<lparr>fs = [], log = [GetPage ''https://rfi.example/jff/'',
                          GetPage ''https://rfi.example/jff/?page=1'',
                          GetPage ''https://rfi.example/jff/?page=2'']\<rparr>)"
  by code_simp

lemma fetch_listing_example:
  "fetch_listing example_listing_env example_config (Some 2) (Some (2024, 3, 14)) 3 empty_world =
     (Inr [((2024, 3, 15), ''https://rfi.example/jff/20240315-journal''),
           ((2024, 3, 14), ''https://rfi.example/jff/20240314-journal'')],
      \<lparr>fs = [], log = [GetPage ''https://rfi.example/jff/'',
                          GetPage ''https://rfi.example/jff/?page=1'',
                          GetPage ''https://rfi.example/jff/?page=2'']\<rparr>)"
  by code_simp

text \<open>
  Claim C4. Let \<open>collected\<close> be the pairs that the page loop of \<^verbatim>\<open>fetch_listing\<close> has
  gathered (address and date, one pair for each address). Then \<^verbatim>\<open>fetch_listing\<close> returns
  a list \<open>res\<close> of pairs of date and address such that: no address occurs twice in
  \<open>res\<close>; the dates of \<open>res\<close> descend; every pair of \<open>res\<close> is a gathered pair whose date
  is on or after \<^verbatim>\<open>since\<close> (when \<^verbatim>\<open>since\<close> is given); every such gathered pair that
  is not in \<open>res\<close> is no newer than any pair of \<open>res\<close>; without a limit, and with the
  limit 0, \<open>res\<close> holds all of these pairs; and with a positive limit \<open>n\<close> it holds \<open>n\<close>
  of them, or all of them when there are fewer than \<open>n\<close>.
\<close>

theorem fetch_listing_newest_first:
  assumes "listing_pages e cfg [0 ..< nat (max 1 pages)] [] w = (Inr collected, w')"
  shows "\<exists>res. fetch_listing e cfg limit since pages w = (Inr res, w') \<and>
      distinct (map snd res) \<and>
      sorted_wrt (\<lambda>a b. fst b \<le> fst a) res \<and>
      set res \<subseteq> {(d, u). (u, d) \<in> set collected \<and> on_or_after since d} \<and>
      (\<forall>x \<in> set res.
         \<forall>y \<in> {(d, u). (u, d) \<in> set collected \<and> on_or_after since d} - set res.
           fst y \<le> fst x) \<and>
      (limit = None \<or> limit = Some 0 \<longrightarrow>
         set res = {(d, u). (u, d) \<in> set collected \<and> on_or_after since d}) \<and>
      (\<forall>n. limit = Some n \<and> 0 < n \<longrightarrow>
         length res =
           min (nat n) (card {(d, u). (u, d) \<in> set collected \<and> on_or_after since d}))"
proof -
  define el where "el = filter (\<lambda>item. on_or_after since (fst item))
                  (sorted_reverse fst (map (\<lambda>kv. (snd kv, fst kv)) collected))"
  define res where
    "res = (case limit of None \<Rightarrow> el | Some n \<Rightarrow> if n = 0 then el else slice_to n el)"
  have "distinct (map fst ([] :: (string \<times> datetime) list))" by simp
  then have d: "distinct (map fst collected)"
    using assms by (rule listing_pages_distinct)
  note el = eligible_list[OF d, of since, folded el_def]
  have del: "distinct el" using el(1) by (simp add: distinct_map)
  have card: "card {(d, u). (u, d) \<in> set collected \<and> on_or_after since d} = length el"
    using del el(3) by (metis distinct_card)
  have ret: "fetch_listing e cfg limit since pages w = (Inr res, w')"
    using fetch_listing_returns[OF assms, of limit since]
    unfolding res_def el_def Let_def by simp
  have pre: "\<exists>k. res = take k el"
  proof (cases limit)
    case None
    then have "res = take (length el) el" unfolding res_def by simp
    then show ?thesis ..
  next
    case (Some n)
    show ?thesis
    proof (cases "n = 0")
      case True
      then have "res = take (length el) el" unfolding res_def using Some by simp
      then show ?thesis ..
    next
      case False
      show ?thesis
      proof (cases "0 \<le> n")
        case True
        then have "res = take (nat n) el"
          unfolding res_def slice_to_def using Some False by simp
        then show ?thesis ..
      next
        case neg: False
        then have "res = take (length el - nat (- n)) el"
          unfolding res_def slice_to_def using Some False by simp
        then show ?thesis ..
      qed
    qed
  qed
  then obtain k where k: "res = take k el" ..
  have p1: "distinct (map snd res)"
    unfolding k using el(1) by (rule distinct_map_take)
  have p2: "sorted_wrt (\<lambda>a b. fst b \<le> fst a) res"
    unfolding k using el(2) by (rule sorted_wrt_take)
  have p3: "set res \<subseteq> {(d, u). (u, d) \<in> set collected \<and> on_or_after since d}"
    unfolding k el(3)[symmetric] by (rule set_take_subset)
  have p4: "\<forall>x \<in> set res.
         \<forall>y \<in> {(d, u). (u, d) \<in> set collected \<and> on_or_after since d} - set res.
           fst y \<le> fst x"
    unfolding k el(3)[symmetric] using el(2) by (rule sorted_desc_take_rest)
  have p5: "limit = None \<or> limit = Some 0 \<longrightarrow>
         set res = {(d, u). (u, d) \<in> set collected \<and> on_or_after since d}"
    unfolding el(3)[symmetric] res_def by auto
  have p6: "\<forall>n. limit = Some n \<and> 0 < n \<longrightarrow>
         length res =
           min (nat n) (card {(d, u). (u, d) \<in> set collected \<and> on_or_after since d})"
    unfolding card res_def slice_to_def by auto
  from ret p1 p2 p3 p4 p5 p6 show ?thesis by (intro exI[of _ res] conjI)
qed

theorem fetch_listing_newest_first_witness:
  "listing_pages example_listing_env example_config [0 ..< nat (max 1 3)] [] empty_world =
     (Inr [(''https://rfi.example/jff/20240315-journal'', (2024, 3, 15)),
           (''https://rfi.example/jff/20240314-journal'', (2024, 3, 14)),
           (''https://rfi.example/jff/20240313-journal'', (2024, 3, 13)),
           (''https://rfi.example/jff/20240312-journal'', (2024, 3, 12))],
      \<lparr>fs = [], log = [GetPage ''https://rfi.example/jff/'',
                          GetPage ''https://rfi.example/jff/?page=1'',
                          GetPage ''https://rfi.example/jff/?page=2'']\<rparr>) \<and>
   fetch_listing example_listing_env example_config (Some 2) (Some (2024, 3, 14)) 3 empty_world =
     (Inr [((2024, 3, 15), ''https://rfi.example/jff/20240315-journal''),
           ((2024, 3, 14), ''https://rfi.example/jff/20240314-journal'')],
      \<lparr>fs = [], log = [GetPage ''https://rfi.example/jff/'',
                          GetPage ''https://rfi.example/jff/?page=1'',
                          GetPage ''https://rfi.example/jff/?page=2'']\<rparr>) \<and>
   length [(((2024, 3, 15) :: datetime), ''https://rfi.example/jff/20240315-journal''),
           ((2024, 3, 14), ''https://rfi.example/jff/20240314-journal'')] =
     min (nat 2) (card {(d, u). (u, d) \<in> set [(''https://rfi.example/jff/20240315-journal'', (2024, 3, 15)),
           (''https://rfi.example/jff/20240314-journal'', (2024, 3, 14)),
           (''https://rfi.example/jff/20240313-journal'', (2024, 3, 13)),
           (''https://rfi.example/jff/20240312-journal'', ((2024, 3, 12) :: datetime))] \<and>
         on_or_after (Some (2024, 3, 14)) d})"
proof -
  from fetch_listing_newest_first[OF listing_pages_example, of "Some 2" "Some (2024, 3, 14)"]
  obtain res where
    r: "fetch_listing example_listing_env example_config (Some 2) (Some (2024, 3, 14)) 3 empty_world =
          (Inr res, \<lparr>fs = [], log = [GetPage ''https://rfi.example/jff/'',
                          GetPage ''https://rfi.example/jff/?page=1'',
                          GetPage ''https://rfi.example/jff/?page=2'']\<rparr>)"
    and l: "\<forall>n. Some (2::int) = Some n \<and> 0 < n \<longrightarrow> length res =
           min (nat n) (card {(d, u). (u, d) \<in> set [(''https://rfi.example/jff/20240315-journal'', (2024, 3, 15)),
           (''https://rfi.example/jff/20240314-journal'', (2024, 3, 14)),
           (''https://rfi.example/jff/20240313-journal'', (2024, 3, 13)),
           (''https://rfi.example/jff/20240312-journal'', ((2024, 3, 12) :: datetime))] \<and>
         on_or_after (Some (2024, 3, 14)) d})"
    by blast
  from r have res: "res = [((2024, 3, 15), ''https://rfi.example/jff/20240315-journal''),
           ((2024, 3, 14), ''https://rfi.example/jff/20240314-journal'')]"
    unfolding fetch_listing_example by simp
  from l have "length res =
           min (nat 2) (card {(d, u). (u, d) \<in> set [(''https://rfi.example/jff/20240315-journal'', (2024, 3, 15)),
           (''https://rfi.example/jff/20240314-journal'', (2024, 3, 14)),
           (''https://rfi.example/jff/20240313-journal'', (2024, 3, 13)),
           (''https://rfi.example/jff/20240312-journal'', ((2024, 3, 12) :: datetime))] \<and>
         on_or_after (Some (2024, 3, 14)) d})"
    by simp
  then show ?thesis
    unfolding res using listing_pages_example fetch_listing_example by (intro conjI)
qed

subsection \<open>The file system and the downloader\<close>

lemma lookup_parent_dir:
  "lookup es p = Some x \<Longrightarrow> p \<noteq> [] \<Longrightarrow> \<exists>sub. lookup es (butlast p) = Some (Dir sub)"
proof (induction es p rule: lookup.induct)
  case (1 es)
  then show ?case by simp
next
  case (2 es n p)
  show ?case
  proof (cases p)
    case Nil
    then show ?thesis by simp
  next
    case (Cons m q)
    then show ?thesis using 2
      by (auto split: option.splits node.splits if_splits)
  qed
qed

lemma mkdir_parents_existing:
  "lookup es p = Some (Dir sub) \<Longrightarrow> mkdir_parents es p = Inr es"
proof (induction es p arbitrary: sub rule: lookup.induct)
  case (1 es)
  then show ?case by simp
next
  case (2 es n p)
  then show ?case
    by (auto split: option.splits node.splits if_splits simp: update_triv)
qed

lemma write_file_lookup:
  "write_file es p c = Inr es' \<Longrightarrow> lookup es' p = Some (File c)"
proof (induction es p c arbitrary: es' rule: write_file.induct)
  case (1 es c)
  then show ?case by simp
next
  case (2 es n c)
  then show ?case
    by (auto split: option.splits node.splits simp: update_conv')
next
  case (3 es n m p c)
  from "3.prems" obtain sub sub' where
    a: "map_of es n = Some (Dir sub)" and
    b: "write_file sub (m # p) c = Inr sub'" and
    c: "es' = AList.update n (Dir sub') es"
    by (auto split: option.splits node.splits sum.splits)
  have "lookup sub' (m # p) = Some (File c)"
    using "3.IH"[OF a refl b] .
  moreover have "map_of es' n = Some (Dir sub')"
    unfolding c by (simp add: update_conv')
  ultimately show ?case
    by (simp del: lookup.simps add: lookup.simps(2)[of es' n])
qed

lemma download_file_existing:
  assumes "exists (fs w) dest"
  shows "download_file e url dest w = (Inr (), w)"
proof (cases "dest = []")
  case True
  then show ?thesis using assms by (simp add: download_file_def parent_def exists_def)
next
  case False
  obtain x where "lookup (fs w) dest = Some x" using assms by (auto simp: exists_def)
  then obtain sub where "lookup (fs w) (butlast dest) = Some (Dir sub)"
    using lookup_parent_dir False by blast
  then have "mkdir_parents (fs w) (parent dest) = Inr (fs w)"
    unfolding parent_def by (rule mkdir_parents_existing)
  then show ?thesis using assms by (simp add: download_file_def)
qed

lemma download_file_leaves_file:
  assumes "download_file e url dest w = (Inr (), w1)"
  shows "exists (fs w1) dest"
  using assms write_file_lookup
  unfolding download_file_def http_def
  by (auto simp: Let_def exists_def split: sum.splits if_splits prod.splits option.splits)

text \<open>
  Claim C6. If the destination exists, \<open>download_file\<close> returns normally and leaves the
  world as it was: no request is added to the log and the file system is unchanged.
  Hence a call that follows a successful call with the same arguments issues no request
  and changes nothing.
\<close>

theorem download_file_idempotent:
  "(exists (fs w) dest \<longrightarrow> download_file e url dest w = (Inr (), w)) \<and>
   (\<forall>w1. download_file e url dest w = (Inr (), w1) \<longrightarrow>
      download_file e url dest w1 = (Inr (), w1))"
  using download_file_existing download_file_leaves_file by blast


theorem download_file_idempotent_witness:
  "download_file example_media_env example_mp3_url example_mp3_dest empty_world =
     (Inr (), world_after_download) \<and>
   download_file example_media_env example_mp3_url example_mp3_dest world_after_download =
     (Inr (), world_after_download) \<and>
   log world_after_download = [GetFile example_mp3_url]"
proof -
  have first: "download_file example_media_env example_mp3_url example_mp3_dest empty_world =
     (Inr (), world_after_download)"
    by code_simp
  have l: "log world_after_download = [GetFile example_mp3_url]"
    by code_simp
  from first show ?thesis
    using l download_file_idempotent[of empty_world example_mp3_dest example_media_env example_mp3_url]
    by simp
qed

subsection \<open>The metadata of an episode\<close>

lemma split_on_no_sep: "c \<notin> set p \<Longrightarrow> split_on c p = [p]"
  by (induction p) auto

lemma split_on_append_sep:
  "c \<notin> set p \<Longrightarrow> split_on c (p @ c # rest) = p # split_on c rest"
  by (induction p) (auto split: list.splits)

lemma split_on_join_with:
  "ls \<noteq> [] \<Longrightarrow> \<forall>l \<in> set ls. c \<notin> set l \<Longrightarrow> split_on c (join_with c ls) = ls"
proof (induction c ls rule: join_with.induct)
  case (1 c)
  then show ?case by simp
next
  case (2 c p)
  then show ?case by (simp add: split_on_no_sep)
next
  case (3 c p q ps)
  then show ?case by (simp add: split_on_append_sep)
qed

lemma universal_newlines_id: "CHR 0x0D \<notin> set s \<Longrightarrow> universal_newlines s = s"
  by (induction s rule: universal_newlines.induct) auto

lemma set_join_with: "set (join_with c ls) \<subseteq> insert c (\<Union> (set ` set ls))"
  by (induction c ls rule: join_with.induct) auto

lemma strip_after_space: "is_space c \<Longrightarrow> strip (c # u) = strip u"
  by (simp add: strip_def)

lemma dropWhile_none: "\<forall>c \<in> set xs. \<not> P c \<Longrightarrow> dropWhile P xs = xs"
  by (cases xs) auto

lemma strip_no_space: "\<forall>c \<in> set m. \<not> is_space c \<Longrightarrow> strip m = m"
proof -
  assume a: "\<forall>c \<in> set m. \<not> is_space c"
  then have "dropWhile is_space m = m" by (rule dropWhile_none)
  moreover have "dropWhile is_space (rev m) = rev m" using a by (intro dropWhile_none) simp
  ultimately show ?thesis by (simp add: strip_def)
qed

lemma scheme_chars:
  "\<forall>c \<in> set ''https://''. mp3_url_char c" "\<forall>c \<in> set ''http://''. mp3_url_char c"
  by (simp_all add: mp3_url_char_def is_space_def)

lemma match_scheme_cases:
  "match_scheme s = Some (scheme, rest) \<Longrightarrow> scheme = ''https://'' \<or> scheme = ''http://''"
  by (auto simp: match_scheme_def split: if_splits)

lemma mp3_match_here_chars:
  assumes "mp3_match_here s = Some m"
  shows "\<forall>c \<in> set m. mp3_url_char c"
proof -
  obtain scheme rest where sc: "match_scheme s = Some (scheme, rest)"
    using assms by (auto simp: mp3_match_here_def split: option.splits)
  have sch: "\<forall>c \<in> set scheme. mp3_url_char c"
    using match_scheme_cases[OF sc] scheme_chars by blast
  obtain k where m: "m = scheme @ take (k + 4) (takeWhile mp3_url_char rest)"
    using assms sc by (auto simp: mp3_match_here_def Let_def split: list.splits)
  have "\<forall>c \<in> set (take (k + 4) (takeWhile mp3_url_char rest)). mp3_url_char c"
    by (meson in_set_takeD set_takeWhileD)
  then show ?thesis using sch m by auto
qed

lemma mp3_search_chars: "mp3_search html = Some m \<Longrightarrow> \<forall>c \<in> set m. mp3_url_char c"
  by (induction html rule: mp3_search.induct) (auto split: option.splits dest: mp3_match_here_chars)

lemma mp3_search_no_space: "mp3_search html = Some m \<Longrightarrow> \<forall>c \<in> set m. \<not> is_space c"
  using mp3_search_chars by (auto simp: mp3_url_char_def)

lemma and_then_Inr:
  "and_then r f = (Inr y, w') \<longleftrightarrow> (\<exists>x w. r = (Inr x, w) \<and> f x w = (Inr y, w'))"
  unfolding and_then_def by (auto split: prod.splits sum.splits)

lemma fs_op_Inr:
  "fs_op f w = (Inr x, w') \<longleftrightarrow> (\<exists>es. f (fs w) = Inr es \<and> w' = w\<lparr>fs := es\<rparr>)"
  unfolding fs_op_def by (auto split: sum.splits)

lemma fs_op_log: "log (snd (fs_op f w)) = log w"
  unfolding fs_op_def by (auto split: sum.splits)

lemma extract_media_result:
  assumes "extract_media e url w = (Inr (mp3, tr, img), w2)"
  shows "\<exists>resp. network e (log w) (GetPage url) = Some resp \<and>
           mp3 = mp3_search (body resp) \<and> tr = extract_transcript e (body resp) \<and>
           img = extract_image_url e (body resp)"
  using assms unfolding extract_media_def http_def
  by (auto simp: Let_def split: option.splits sum.splits)

lemma process_episode_metadata:
  assumes "process_episode e cfg date url download w = (Inr folder, w')"
  shows "\<exists>resp. network e (log w) (GetPage url) = Some resp \<and>
           lookup (fs w') (child folder ''episode.txt'') =
             Some (File (join_with CHR 0x0A
               (episode_lines url (mp3_search (body resp)) (extract_transcript e (body resp))
                  (extract_image_url e (body resp)))))"
proof -
  define fd where "fd = child (DATA_DIR cfg) (strftime_ymd date @ ''-'' @ safe_slug_from_url (unquote e) url)"
  have "\<exists>w1 mp3 tr img w2 w5 es.
    fs_op (\<lambda>es. mkdir_parents es fd) w = (Inr (), w1) \<and>
    extract_media e url w1 = (Inr (mp3, tr, img), w2) \<and>
    write_text (fs w5) (child fd ''episode.txt'')
           (join_with CHR 0x0A (episode_lines url mp3 tr img)) = Inr es \<and>
    w' = w5\<lparr>fs := es\<rparr> \<and> folder = fd"
    using assms unfolding process_episode_def Let_def fd_def[symmetric]
    by (simp add: and_then_Inr fs_op_Inr split: prod.splits) blast
  then obtain w1 mp3 tr img w2 w5 es where
    m: "fs_op (\<lambda>es. mkdir_parents es folder) w = (Inr (), w1)" and
    x: "extract_media e url w1 = (Inr (mp3, tr, img), w2)" and
    wr: "write_text (fs w5) (child folder ''episode.txt'')
           (join_with CHR 0x0A (episode_lines url mp3 tr img)) = Inr es" and
    fin: "w' = w5\<lparr>fs := es\<rparr>"
    by blast
  have "log w1 = log w" using m fs_op_log[of "\<lambda>es. mkdir_parents es folder" w] by simp
  then obtain resp where r: "network e (log w) (GetPage url) = Some resp"
    "mp3 = mp3_search (body resp)" "tr = extract_transcript e (body resp)"
    "img = extract_image_url e (body resp)"
    using extract_media_result[OF x] by auto
  have "lookup es (child folder ''episode.txt'') =
      Some (File (join_with CHR 0x0A (episode_lines url mp3 tr img)))"
    using wr unfolding write_text_def by (rule write_file_lookup)
  then show ?thesis using r fin by auto
qed

lemma space_chars: "is_space CHR 0x0A" "is_space CHR 0x0D" "is_space CHR '' ''"
  by (simp_all add: is_space_def)

lemma mp3_search_no_line_break:
  "CHR 0x0A \<notin> set (or_empty (mp3_search html))" "CHR 0x0D \<notin> set (or_empty (mp3_search html))"
proof -
  have "\<forall>c \<in> set (or_empty (mp3_search html)). \<not> is_space c"
  proof (cases "mp3_search html")
    case None
    then show ?thesis by (simp add: or_empty_def)
  next
    case (Some m)
    then show ?thesis using mp3_search_no_space[OF Some] by (simp add: or_empty_def)
  qed
  then show "CHR 0x0A \<notin> set (or_empty (mp3_search html))"
    "CHR 0x0D \<notin> set (or_empty (mp3_search html))"
    using space_chars by blast+
qed

lemma episode_lines_split:
  assumes "CHR 0x0A \<notin> set url" "CHR 0x0A \<notin> set (or_empty img)"
  shows "split_on CHR 0x0A (join_with CHR 0x0A (episode_lines url (mp3_search html) tr img)) =
           episode_lines url (mp3_search html) tr img"
proof (rule split_on_join_with)
  show "episode_lines url (mp3_search html) tr img \<noteq> []" by (simp add: episode_lines_def)
  show "\<forall>l \<in> set (episode_lines url (mp3_search html) tr img). CHR 0x0A \<notin> set l"
    using assms mp3_search_no_line_break(1)[of html] by (simp add: episode_lines_def)
qed

lemma episode_lines_no_cr:
  assumes "CHR 0x0D \<notin> set url" "CHR 0x0D \<notin> set (or_empty img)"
  shows "CHR 0x0D \<notin> set (join_with CHR 0x0A (episode_lines url (mp3_search html) tr img))"
proof -
  have "\<forall>l \<in> set (episode_lines url (mp3_search html) tr img). CHR 0x0D \<notin> set l"
    using assms mp3_search_no_line_break(2)[of html] by (simp add: episode_lines_def)
  then show ?thesis
    using set_join_with[of "CHR 0x0A" "episode_lines url (mp3_search html) tr img"] by auto
qed

lemma read_text_episode_txt:
  assumes "process_episode e cfg date url download w = (Inr folder, w')"
    and "network e (log w) (GetPage url) = Some resp"
    and "CHR 0x0D \<notin> set url" "CHR 0x0D \<notin> set (or_empty (extract_image_url e (body resp)))"
  shows "read_text (fs w') (child folder ''episode.txt'') =
           Inr (join_with CHR 0x0A
              (episode_lines url (mp3_search (body resp)) (extract_transcript e (body resp))
                 (extract_image_url e (body resp))))"
proof -
  obtain r where r: "network e (log w) (GetPage url) = Some r"
    "lookup (fs w') (child folder ''episode.txt'') =
       Some (File (join_with CHR 0x0A
               (episode_lines url (mp3_search (body r)) (extract_transcript e (body r))
                  (extract_image_url e (body r)))))"
    using process_episode_metadata[OF assms(1)] by blast
  have "r = resp" using r(1) assms(2) by simp
  then show ?thesis
    using r(2) episode_lines_no_cr[OF assms(3,4)]
    by (simp add: read_text_def universal_newlines_id)
qed

text \<open>
  Claim C7, as the code has it. When \<open>process_episode\<close> returns, \<^verbatim>\<open>episode.txt\<close> in the
  folder it returns reads back as exactly four lines, keyed \<open>url\<close>, \<open>mp3\<close>, \<open>transcript\<close>
  and \<open>image\<close> in this order, with an empty value for each part that the page did not
  give, provided that neither the episode address nor the image address extracted
  holds a line feed or a carriage return. (The audio address cannot: the regular
  expression admits no white space.)
\<close>

theorem process_episode_four_lines:
  assumes "process_episode e cfg date url download w = (Inr folder, w')"
    and "network e (log w) (GetPage url) = Some resp"
    and "CHR 0x0A \<notin> set url" and "CHR 0x0D \<notin> set url"
    and "CHR 0x0A \<notin> set (or_empty (extract_image_url e (body resp)))"
    and "CHR 0x0D \<notin> set (or_empty (extract_image_url e (body resp)))"
  shows "\<exists>t. read_text (fs w') (child folder ''episode.txt'') = Inr t \<and>
           length (split_on CHR 0x0A t) = 4 \<and>
           split_on CHR 0x0A t =
             [''url: '' @ url,
              ''mp3: '' @ or_empty (mp3_search (body resp)),
              ''transcript: '' @
                 (if present (extract_transcript e (body resp)) then ''transcript.txt'' else ''''),
              ''image: '' @ or_empty (extract_image_url e (body resp))]"
proof -
  have "read_text (fs w') (child folder ''episode.txt'') =
           Inr (join_with CHR 0x0A
              (episode_lines url (mp3_search (body resp)) (extract_transcript e (body resp))
                 (extract_image_url e (body resp))))"
    using assms(1,2,4,6) by (rule read_text_episode_txt)
  moreover have "split_on CHR 0x0A (join_with CHR 0x0A
              (episode_lines url (mp3_search (body resp)) (extract_transcript e (body resp))
                 (extract_image_url e (body resp)))) =
      episode_lines url (mp3_search (body resp)) (extract_transcript e (body resp))
                 (extract_image_url e (body resp))"
    using assms(3,5) by (rule episode_lines_split)
  ultimately show ?thesis by (simp add: episode_lines_def)
qed

lemma parse_line_keyed:
  assumes "CHR '':'' \<notin> set k"
  shows "parse_line meta (k @ CHR '':'' # CHR '' '' # v) = meta(strip k \<mapsto> strip v)"
proof -
  have a: "takeWhile (\<lambda>c. c \<noteq> CHR '':'') (k @ CHR '':'' # CHR '' '' # v) = k"
    using assms by (induction k) auto
  have b: "dropWhile (\<lambda>c. c \<noteq> CHR '':'') (k @ CHR '':'' # CHR '' '' # v) = CHR '':'' # CHR '' '' # v"
    using assms by (induction k) auto
  show ?thesis
    unfolding parse_line_def Let_def a b
    by (simp add: strip_after_space space_chars)
qed

lemma parse_episode_lines:
  "foldl parse_line Map.empty (episode_lines url mp3 tr img) =
     [''url'' \<mapsto> strip url, ''mp3'' \<mapsto> strip (or_empty mp3),
      ''transcript'' \<mapsto> strip (if present tr then ''transcript.txt'' else ''''),
      ''image'' \<mapsto> strip (or_empty img)]"
proof -
  have k: "strip ''url'' = ''url''" "strip ''mp3'' = ''mp3''" "strip ''transcript'' = ''transcript''"
    "strip ''image'' = ''image''"
    by (simp_all add: strip_def is_space_def)
  have "parse_line m (''url'' @ CHR '':'' # CHR '' '' # v) = m(''url'' \<mapsto> strip v)" for m v
    using parse_line_keyed[of "''url''" m v] k by simp
  moreover have "parse_line m (''mp3'' @ CHR '':'' # CHR '' '' # v) = m(''mp3'' \<mapsto> strip v)" for m v
    using parse_line_keyed[of "''mp3''" m v] k by simp
  moreover have "parse_line m (''transcript'' @ CHR '':'' # CHR '' '' # v) = m(''transcript'' \<mapsto> strip v)" for m v
    using parse_line_keyed[of "''transcript''" m v] k by simp
  moreover have "parse_line m (''image'' @ CHR '':'' # CHR '' '' # v) = m(''image'' \<mapsto> strip v)" for m v
    using parse_line_keyed[of "''image''" m v] k by simp
  ultimately show ?thesis
    by (simp add: episode_lines_def)
qed

text \<open>
  Claim C10, as the code has it. After \<open>process_episode\<close> has returned,
  \<open>parse_episode_meta\<close> on the folder gives the episode address under \<open>url\<close> and the
  audio address extracted (or the empty string) under \<open>mp3\<close>, provided that the episode
  address has no line feed, no carriage return and no white space at either end, and
  that the image address extracted has no line feed and no carriage return.
\<close>

theorem episode_meta_round_trip:
  assumes "process_episode e cfg date url download w = (Inr folder, w')"
    and "network e (log w) (GetPage url) = Some resp"
    and "CHR 0x0A \<notin> set url" and "CHR 0x0D \<notin> set url" and "strip url = url"
    and "CHR 0x0A \<notin> set (or_empty (extract_image_url e (body resp)))"
    and "CHR 0x0D \<notin> set (or_empty (extract_image_url e (body resp)))"
  shows "\<exists>meta. parse_episode_meta (fs w') folder = Inr meta \<and>
           meta ''url'' = Some url \<and>
           meta ''mp3'' = Some (or_empty (mp3_search (body resp)))"
proof -
  let ?lines = "episode_lines url (mp3_search (body resp)) (extract_transcript e (body resp))
                 (extract_image_url e (body resp))"
  have rd: "read_text (fs w') (child folder ''episode.txt'') = Inr (join_with CHR 0x0A ?lines)"
    using assms(1,2,4,7) by (rule read_text_episode_txt)
  then have ex: "exists (fs w') (child folder ''episode.txt'')"
    by (auto simp: read_text_def exists_def split: option.splits)
  have sp: "split_on CHR 0x0A (join_with CHR 0x0A ?lines) = ?lines"
    using assms(3,6) by (rule episode_lines_split)
  have "strip (or_empty (mp3_search (body resp))) = or_empty (mp3_search (body resp))"
  proof (cases "mp3_search (body resp)")
    case None
    then show ?thesis by (simp add: or_empty_def strip_def)
  next
    case (Some m)
    then show ?thesis
      using strip_no_space[OF mp3_search_no_space[OF Some]] by (simp add: or_empty_def)
  qed
  then show ?thesis
    unfolding parse_episode_meta_def Let_def
    using ex rd sp assms(5) by (simp add: parse_episode_lines)
qed

lemma example_episode_completes:
  "process_episode example_episode_env example_config (2024, 3, 15) example_episode_url True
     empty_world =
   (Inr example_folder,
    snd (process_episode example_episode_env example_config (2024, 3, 15) example_episode_url
           True empty_world))"
proof -
  have "fst (process_episode example_episode_env example_config (2024, 3, 15)
               example_episode_url True empty_world) = Inr example_folder"
    by code_simp
  then show ?thesis by (simp add: prod_eq_iff)
qed

lemma example_episode_page:
  "network example_episode_env (log empty_world) (GetPage example_episode_url) = Some example_page"
  by code_simp

lemma example_episode_clean:
  "CHR 0x0A \<notin> set example_episode_url" "CHR 0x0D \<notin> set example_episode_url"
  "strip example_episode_url = example_episode_url"
  "CHR 0x0A \<notin> set (or_empty (extract_image_url example_episode_env (body example_page)))"
  "CHR 0x0D \<notin> set (or_empty (extract_image_url example_episode_env (body example_page)))"
  by code_simp+

lemma example_episode_media:
  "or_empty (mp3_search (body example_page)) = ''https://aod.example/jff-20240315.mp3''"
  "present (extract_transcript example_episode_env (body example_page))"
  "or_empty (extract_image_url example_episode_env (body example_page)) =
     ''https://img.example/cover.jpg''"
  by code_simp+

theorem process_episode_four_lines_witness:
  "\<exists>t. read_text
         (fs (snd (process_episode example_episode_env example_config (2024, 3, 15)
                     example_episode_url True empty_world)))
         (child example_folder ''episode.txt'') = Inr t \<and>
       split_on CHR 0x0A t =
         [''url: '' @ example_episode_url,
          ''mp3: https://aod.example/jff-20240315.mp3'',
          ''transcript: transcript.txt'',
          ''image: https://img.example/cover.jpg'']"
  using process_episode_four_lines[OF example_episode_completes example_episode_page
      example_episode_clean(1,2,4,5)]
  by (auto simp: example_episode_media)


text \<open>
  Without the proviso the file has more lines: an image address with a line feed in it
  is written as it is, and the file reads back as five lines.
\<close>

theorem process_episode_five_lines:
  "fst (process_episode line_feed_env example_config (2024, 3, 15) example_episode_url True
          empty_world) = Inr example_folder \<and>
   read_text
     (fs (snd (process_episode line_feed_env example_config (2024, 3, 15) example_episode_url
                 True empty_world)))
     (child example_folder ''episode.txt'') =
     Inr (join_with CHR 0x0A
            [''url: https://rfi.example/jff/20240315-journal'',
             ''mp3: https://aod.example/jff-20240315.mp3'',
             ''transcript: transcript.txt'',
             ''image: https://img.example/cover.jpg'',
             ''640w'']) \<and>
   length (split_on CHR 0x0A (join_with CHR 0x0A
            [''url: https://rfi.example/jff/20240315-journal'',
             ''mp3: https://aod.example/jff-20240315.mp3'',
             ''transcript: transcript.txt'',
             ''image: https://img.example/cover.jpg'',
             ''640w''])) = 5"
  by code_simp

theorem episode_meta_round_trip_witness:
  "\<exists>meta. parse_episode_meta
         (fs (snd (process_episode example_episode_env example_config (2024, 3, 15)
                     example_episode_url True empty_world)))
         example_folder = Inr meta \<and>
       meta ''url'' = Some example_episode_url \<and>
       meta ''mp3'' = Some ''https://aod.example/jff-20240315.mp3''"
  using episode_meta_round_trip[OF example_episode_completes example_episode_page
      example_episode_clean]
  by (auto simp: example_episode_media)

text \<open>
  The proviso on the image address is needed: the line after a line feed in it is read
  as a metadata line of its own, and one that starts with \<^verbatim>\<open>url:\<close> replaces the
  episode address.
\<close>

theorem episode_meta_url_overwritten:
  "fst (process_episode metadata_line_env example_config (2024, 3, 15) example_episode_url True
          empty_world) = Inr example_folder \<and>
   CHR 0x0A \<notin> set example_episode_url \<and>
   strip example_episode_url = example_episode_url \<and>
   (case parse_episode_meta
           (fs (snd (process_episode metadata_line_env example_config (2024, 3, 15)
                       example_episode_url True empty_world)))
           example_folder of
      Inl err \<Rightarrow> None
    | Inr meta \<Rightarrow> meta ''url'') = Some ''https://elsewhere.example/''"
  by code_simp

subsection \<open>The lessons of a course\<close>

lemma lessons_page_log:
  "log (snd (snd (lessons_page e lang pk page m w))) = log w @ [GetLessons lang pk page]"
  unfolding lessons_page_def http_def
  by (simp add: Let_def split: option.splits sum.splits prod.splits)

lemma lessons_page_fs:
  "fs (snd (snd (lessons_page e lang pk page m w))) = fs w"
  unfolding lessons_page_def http_def
  by (simp add: Let_def split: option.splits sum.splits prod.splits)

lemma lessons_page_ends:
  "ends_pagination (network e (log w) (GetLessons lang pk page)) \<Longrightarrow>
   \<not> fst (lessons_page e lang pk page m w)"
  unfolding lessons_page_def http_def ends_pagination_def no_next_def resp_json_def
  by (auto simp: Let_def split: option.splits sum.splits prod.splits)

lemma lessons_loop_stops:
  assumes "ends_pagination (page_answer e lang pk w k)"
  shows "p \<le> k \<Longrightarrow> 1 \<le> p \<Longrightarrow> log wp = log w @ map (GetLessons lang pk) [1 ..< p] \<Longrightarrow>
         fs wp = fs w \<Longrightarrow>
         \<exists>m' w' j. lessons_loop e lang pk p m wp = Some (m', w') \<and> p \<le> j \<and> j \<le> k \<and>
           log w' = log w @ map (GetLessons lang pk) [1 ..< Suc j] \<and> fs w' = fs w"
proof (induction "k - p" arbitrary: p m wp)
  case 0
  then have pk: "p = k" by simp
  obtain go m1 w1 where lp: "lessons_page e lang pk p m wp = (go, m1, w1)"
    by (cases "lessons_page e lang pk p m wp") auto
  have "ends_pagination (network e (log wp) (GetLessons lang pk p))"
    using assms "0.prems"(3) pk by (simp add: page_answer_def)
  then have "\<not> go" using lessons_page_ends[of e wp lang pk p m] lp by simp
  moreover have "log w1 = log wp @ [GetLessons lang pk p]"
    using lessons_page_log[of e lang pk p m wp] lp by simp
  moreover have "fs w1 = fs wp" using lessons_page_fs[of e lang pk p m wp] lp by simp
  ultimately show ?case
    using lp "0.prems" pk
    by (subst lessons_loop.simps) (auto intro!: exI[of _ k])
next
  case (Suc d)
  obtain go m1 w1 where lp: "lessons_page e lang pk p m wp = (go, m1, w1)"
    by (cases "lessons_page e lang pk p m wp") auto
  have l1: "log w1 = log w @ map (GetLessons lang pk) [1 ..< Suc p]"
    using lessons_page_log[of e lang pk p m wp] lp Suc.prems by simp
  have f1: "fs w1 = fs w" using lessons_page_fs[of e lang pk p m wp] lp Suc.prems by simp
  show ?case
  proof (cases go)
    case False
    then show ?thesis
      using lp l1 f1 Suc.prems
      by (subst lessons_loop.simps) (auto intro!: exI[of _ p])
  next
    case True
    have "d = k - Suc p" "Suc p \<le> k" "1 \<le> Suc p" using Suc.hyps(2) by auto
    from Suc.hyps(1)[OF this l1 f1, of m1]
    obtain m' w' j where
      r: "lessons_loop e lang pk (Suc p) m1 w1 = Some (m', w')" "Suc p \<le> j" "j \<le> k"
        "log w' = log w @ map (GetLessons lang pk) [1 ..< Suc j]" "fs w' = fs w"
      by blast
    have "lessons_loop e lang pk p m wp = Some (m', w')"
      using lp True r(1) by (subst lessons_loop.simps) simp
    then show ?thesis using r by (intro exI[of _ m'] exI[of _ w'] exI[of _ j]) simp
  qed
qed

text \<open>
  Claim C8, as the code has it. If the answer to the request for some page \<open>k\<close> ends
  the pagination (no answer, a 404, an empty list of results in any of the three shapes,
  or no \<open>next\<close> that counts as true), then \<open>get_collection_lessons\<close> returns, having
  requested the pages 1 to \<open>j\<close> for some \<open>j\<close> up to \<open>k\<close>, each once and in order, and
  nothing else.
\<close>

theorem get_collection_lessons_terminates:
  assumes "1 \<le> k" and "ends_pagination (page_answer e lang pk w k)"
  shows "\<exists>mapping w' j. get_collection_lessons e lang pk w = Some (mapping, w') \<and>
           1 \<le> j \<and> j \<le> k \<and>
           log w' = log w @ map (GetLessons lang pk) [1 ..< Suc j] \<and> fs w' = fs w"
  unfolding get_collection_lessons_def
  using lessons_loop_stops[OF assms(2), of 1 w "[]"] assms(1) by simp

lemma endless_goes_on: "fst (lessons_page endless_env lang pk page m w)"
  unfolding lessons_page_def http_def
  by (simp add: endless_env_def endless_site_def endless_page_def raise_for_status_def
      resp_json_def or_empty_list_def add_lesson_def Let_def)

lemma endless_never_returns:
  assumes "lessons_loop e lang pk page m w = Some r"
  shows "e \<noteq> endless_env"
proof (rule lessons_loop.raw_induct
    [where P = "\<lambda>e lang pk page m w r. e \<noteq> endless_env", OF _ assms])
  fix loop e lang pk page m w r
  assume IH: "\<And>e lang pk page m w r. loop e lang pk page m w = Some r \<Longrightarrow> e \<noteq> endless_env"
    and eq: "(case lessons_page e lang pk page m w of
                (go_on, mapping', w') \<Rightarrow>
                  if go_on then loop e lang pk (page + 1) mapping' w'
                  else Some (mapping', w')) = Some r"
  show "e \<noteq> endless_env"
  proof
    assume e: "e = endless_env"
    obtain go m1 w1 where lp: "lessons_page e lang pk page m w = (go, m1, w1)"
      by (cases "lessons_page e lang pk page m w") auto
    then have go using endless_goes_on[of lang pk page m w] e by simp
    then have "loop e lang pk (page + 1) m1 w1 = Some r" using eq lp by simp
    then show False using IH e by blast
  qed
qed

text \<open>
  The proviso cannot be dropped: nothing bounds the number of pages, and against a
  server that answers every page with a lesson and a \<open>next\<close> pointer the loop never
  returns.
\<close>

theorem get_collection_lessons_endless:
  "get_collection_lessons endless_env ''fr'' 2570591 empty_world = None"
proof (cases "get_collection_lessons endless_env ''fr'' 2570591 empty_world")
  case None
  then show ?thesis .
next
  case (Some r)
  then show ?thesis
    unfolding get_collection_lessons_def using endless_never_returns by blast
qed

lemma two_pages_end: "ends_pagination (page_answer two_page_env ''fr'' 2570591 empty_world 2)"
  by code_simp

lemma two_pages_value:
  "get_collection_lessons two_page_env ''fr'' 2570591 empty_world =
     Some ([(JStr ''Lesson one'', JNum 11), (JStr ''Lesson two'', JNum 12)],
           \<lparr>fs = [], log = [GetLessons ''fr'' 2570591 1, GetLessons ''fr'' 2570591 2]\<rparr>)"
proof -
  have p1: "lessons_page two_page_env ''fr'' 2570591 1 [] empty_world =
      (True, [(JStr ''Lesson one'', JNum 11)], \<lparr>fs = [], log = [GetLessons ''fr'' 2570591 1]\<rparr>)"
    by code_simp
  have p2: "lessons_page two_page_env ''fr'' 2570591 2 [(JStr ''Lesson one'', JNum 11)]
        \<lparr>fs = [], log = [GetLessons ''fr'' 2570591 1]\<rparr> =
      (False, [(JStr ''Lesson one'', JNum 11), (JStr ''Lesson two'', JNum 12)],
       \<lparr>fs = [], log = [GetLessons ''fr'' 2570591 1, GetLessons ''fr'' 2570591 2]\<rparr>)"
    by code_simp
  have "lessons_loop two_page_env ''fr'' 2570591 2 [(JStr ''Lesson one'', JNum 11)]
        \<lparr>fs = [], log = [GetLessons ''fr'' 2570591 1]\<rparr> =
      Some ([(JStr ''Lesson one'', JNum 11), (JStr ''Lesson two'', JNum 12)],
           \<lparr>fs = [], log = [GetLessons ''fr'' 2570591 1, GetLessons ''fr'' 2570591 2]\<rparr>)"
    by (subst lessons_loop.simps, subst p2) simp
  then show ?thesis
    unfolding get_collection_lessons_def
    by (subst lessons_loop.simps, subst p1) (simp add: numeral_2_eq_2)
qed

theorem get_collection_lessons_terminates_witness:
  "\<exists>mapping w' j. get_collection_lessons two_page_env ''fr'' 2570591 empty_world = Some (mapping, w') \<and>
     1 \<le> j \<and> j \<le> 2 \<and>
     log w' = log empty_world @ map (GetLessons ''fr'' 2570591) [1 ..< Suc j] \<and>
     fs w' = fs empty_world \<and>
     mapping = [(JStr ''Lesson one'', JNum 11), (JStr ''Lesson two'', JNum 12)]"
  using get_collection_lessons_terminates[of 2 two_page_env "''fr''" 2570591 empty_world]
    two_pages_end two_pages_value
  by auto

end
